theory Spec2Isabelle
  imports Main "HOL-Library.Word"
begin

unbundle bit_operations_syntax

section \<open>Machine types\<close>

type_synonym u8 = "8 word"
type_synonym u16 = "16 word"
type_synonym u32 = "32 word"

section \<open>utils/queue.c: the deferred command queue\<close>

text \<open>
  \<^verbatim>\<open>RecompQueueCmd { u32 op, arg0, arg1; union { void* asPtr; s32 asInt; ... } }\<close> and
  \<^verbatim>\<open>RecompQueue { RecompQueueCmd* entries; u16 numEntries, capacity; }\<close>.
  The union is one 32-bit cell.  The \<open>entries\<close> buffer is kept by value: a list with one
  element per allocated slot, of which the first \<open>numEntries\<close> are in use.
\<close>

record RecompQueueCmd =
  op :: u32
  arg0 :: u32
  arg1 :: u32
  asPtr :: u32

record RecompQueue =
  entries :: "RecompQueueCmd list"
  numEntries :: u16
  capacity :: u16

definition QUEUE_INITIAL_CAPACITY :: u16 where
  "QUEUE_INITIAL_CAPACITY = 16"

definition zero_cmd :: RecompQueueCmd where
  "zero_cmd = \<lparr>op = 0, arg0 = 0, arg1 = 0, asPtr = 0\<rparr>"

text \<open>
  \<open>RecompQueue_Create\<close>: two allocations (the struct, then the buffer); \<open>None\<close> is the
  NULL result.  The two booleans say whether the allocator satisfies the requests.
\<close>

definition RecompQueue_Create :: "bool \<Rightarrow> bool \<Rightarrow> RecompQueue option" where
  "RecompQueue_Create okQueue okEntries =
     (if \<not> okQueue then None
      else if \<not> okEntries then None
      else Some \<lparr>entries = replicate (unat QUEUE_INITIAL_CAPACITY) zero_cmd,
                 numEntries = 0, capacity = QUEUE_INITIAL_CAPACITY\<rparr>)"

text \<open>
  \<open>RecompQueue_Grow\<close>: \<open>newCapacity = capacity << 1\<close> in 16 bits.  The boolean is the
  outcome of the one allocation.  The result \<open>None\<close> stands for the run in which the copy
  of the old buffer does not fit the new one (the shifted capacity wrapped around), which
  writes past the new buffer.
\<close>

definition RecompQueue_Grow :: "bool \<Rightarrow> RecompQueue \<Rightarrow> (bool \<times> RecompQueue) option" where
  "RecompQueue_Grow ok queue =
     (let oldCapacity = capacity queue;
          newCapacity = push_bit 1 (capacity queue) :: u16
      in if \<not> ok then Some (False, queue)
         else if unat newCapacity < unat oldCapacity
                 \<or> length (entries queue) < unat oldCapacity then None
         else Some (True,
                queue\<lparr>entries := take (unat oldCapacity) (entries queue)
                                  @ replicate (unat newCapacity - unat oldCapacity) zero_cmd,
                      capacity := newCapacity\<rparr>))"

text \<open>
  \<open>RecompQueue_Push\<close>: grows when full, then stores at index \<open>numEntries\<close> and increments.
  A store outside the buffer is \<open>None\<close>.  The payload argument is the value read through
  \<open>data\<close> (0 for a NULL \<open>data\<close>).
\<close>

definition store_cmd :: "RecompQueue \<Rightarrow> RecompQueueCmd \<Rightarrow> RecompQueue option" where
  "store_cmd queue cmd =
     (if unat (numEntries queue) < length (entries queue)
      then Some (queue\<lparr>entries := (entries queue)[unat (numEntries queue) := cmd],
                       numEntries := numEntries queue + 1\<rparr>)
      else None)"

definition RecompQueue_Push ::
  "bool \<Rightarrow> RecompQueue \<Rightarrow> u32 \<Rightarrow> u32 \<Rightarrow> u32 \<Rightarrow> u32 \<Rightarrow> (bool \<times> RecompQueue) option" where
  "RecompQueue_Push ok queue opc a0 a1 payload =
     (let cmd = \<lparr>op = opc, arg0 = a0, arg1 = a1, asPtr = payload\<rparr>
      in if unat (numEntries queue) \<ge> unat (capacity queue)
         then (case RecompQueue_Grow ok queue of
                 None \<Rightarrow> None
               | Some (False, _) \<Rightarrow> Some (False, queue)
               | Some (True, grown) \<Rightarrow> map_option (Pair True) (store_cmd grown cmd))
         else map_option (Pair True) (store_cmd queue cmd))"

text \<open>The slots in use, oldest first.\<close>

definition queued :: "RecompQueue \<Rightarrow> RecompQueueCmd list" where
  "queued queue = take (unat (numEntries queue)) (entries queue)"

definition cmd_matches :: "u32 \<Rightarrow> u32 \<Rightarrow> u32 \<Rightarrow> RecompQueueCmd \<Rightarrow> bool" where
  "cmd_matches opc a0 a1 cmd \<longleftrightarrow> op cmd = opc \<and> arg0 cmd = a0 \<and> arg1 cmd = a1"

text \<open>\<open>RecompQueue_IsCmdNotQueued\<close>: the linear scan over indices \<open>0 .. numEntries - 1\<close>.\<close>

fun scan_not_queued :: "RecompQueueCmd list \<Rightarrow> u32 \<Rightarrow> u32 \<Rightarrow> u32 \<Rightarrow> bool" where
  "scan_not_queued [] opc a0 a1 = True"
| "scan_not_queued (cmd # rest) opc a0 a1 =
     (if op cmd = opc \<and> arg0 cmd = a0 \<and> arg1 cmd = a1 then False
      else scan_not_queued rest opc a0 a1)"

definition RecompQueue_IsCmdNotQueued :: "RecompQueue \<Rightarrow> u32 \<Rightarrow> u32 \<Rightarrow> u32 \<Rightarrow> bool option" where
  "RecompQueue_IsCmdNotQueued queue opc a0 a1 =
     (if unat (numEntries queue) \<le> length (entries queue)
      then Some (scan_not_queued (queued queue) opc a0 a1)
      else None)"

definition RecompQueue_PushIfNotQueued ::
  "bool \<Rightarrow> RecompQueue \<Rightarrow> u32 \<Rightarrow> u32 \<Rightarrow> u32 \<Rightarrow> u32 \<Rightarrow> (bool \<times> RecompQueue) option" where
  "RecompQueue_PushIfNotQueued ok queue opc a0 a1 payload =
     (case RecompQueue_IsCmdNotQueued queue opc a0 a1 of
        None \<Rightarrow> None
      | Some False \<Rightarrow> Some (False, queue)
      | Some True \<Rightarrow> RecompQueue_Push ok queue opc a0 a1 payload)"

text \<open>
  \<open>RecompQueue_Drain\<close>.  The callback receives a pointer to the slot and may change any
  global state, the queue included, so the loop runs over a state \<open>'w\<close> in which the queue
  is found by \<open>getq\<close> and re-reads \<open>numEntries\<close> before every step.  The index is bounded
  by the 16-bit count, hence the loop ends.
\<close>

function drain_loop ::
  "('w \<Rightarrow> RecompQueue option) \<Rightarrow> (RecompQueueCmd \<Rightarrow> 'w \<Rightarrow> 'w option) \<Rightarrow> nat \<Rightarrow> 'w \<Rightarrow> 'w option" where
  "drain_loop getq drainFunc i w =
     (case getq w of
        None \<Rightarrow> None
      | Some queue \<Rightarrow>
          if i < unat (numEntries queue)
          then (if i < length (entries queue)
                then (case drainFunc (entries queue ! i) w of
                        None \<Rightarrow> None
                      | Some w' \<Rightarrow> drain_loop getq drainFunc (Suc i) w')
                else None)
          else Some w)"
  by pat_completeness auto
termination
proof (relation "measure (\<lambda>(getq, drainFunc, i, w). 65536 - i)")
  show "wf (measure (\<lambda>(getq, drainFunc, i, w). 65536 - i))" by simp
next
  fix getq :: "'w \<Rightarrow> RecompQueue option" and drainFunc :: "RecompQueueCmd \<Rightarrow> 'w \<Rightarrow> 'w option"
    and i :: nat and w w' :: 'w and queue :: RecompQueue
  assume "i < unat (numEntries queue)"
  moreover have "unat (numEntries queue) < 65536"
    using unsigned_less [of "numEntries queue", where ?'a = nat] by simp
  ultimately show "((getq, drainFunc, Suc i, w'), (getq, drainFunc, i, w))
      \<in> measure (\<lambda>(getq, drainFunc, i, w). 65536 - i)"
    by simp
qed

declare drain_loop.simps [simp del]

definition RecompQueue_Drain ::
  "('w \<Rightarrow> RecompQueue option) \<Rightarrow> (RecompQueue \<Rightarrow> 'w \<Rightarrow> 'w)
     \<Rightarrow> (RecompQueueCmd \<Rightarrow> 'w \<Rightarrow> 'w option) \<Rightarrow> 'w \<Rightarrow> 'w option" where
  "RecompQueue_Drain getq setq drainFunc w =
     (case drain_loop getq drainFunc 0 w of
        None \<Rightarrow> None
      | Some w' \<Rightarrow>
          (case getq w' of
             None \<Rightarrow> None
           | Some queue \<Rightarrow> Some (setq (queue\<lparr>numEntries := 0\<rparr>) w')))"

definition RecompQueue_Empty :: "RecompQueue \<Rightarrow> RecompQueue" where
  "RecompQueue_Empty queue = queue\<lparr>numEntries := 0\<rparr>"

text \<open>
  Statement vocabulary for the queue: the representation invariant that \<open>RecompQueue_Create\<close>
  establishes, the sequential run of a callback over a list of commands, and a callback
  that only records the command it is given.
\<close>

definition queue_inv :: "RecompQueue \<Rightarrow> bool" where
  "queue_inv queue \<longleftrightarrow>
     unat (numEntries queue) \<le> unat (capacity queue)
     \<and> length (entries queue) = unat (capacity queue)"

fun run_cmds ::
  "(RecompQueueCmd \<Rightarrow> 'w \<Rightarrow> 'w option) \<Rightarrow> RecompQueueCmd list \<Rightarrow> 'w \<Rightarrow> 'w option" where
  "run_cmds f [] w = Some w"
| "run_cmds f (c # cs) w = (case f c w of None \<Rightarrow> None | Some w' \<Rightarrow> run_cmds f cs w')"

definition record_cmd ::
  "RecompQueueCmd \<Rightarrow> RecompQueue \<times> RecompQueueCmd list
     \<Rightarrow> (RecompQueue \<times> RecompQueueCmd list) option" where
  "record_cmd cmd w = Some (fst w, snd w @ [cmd])"

definition fresh_queue :: RecompQueue where
  "fresh_queue = \<lparr>entries = replicate 16 zero_cmd, numEntries = 0, capacity = 16\<rparr>"

definition first_pushed :: RecompQueue where
  "first_pushed = \<lparr>entries = \<lparr>op = 0, arg0 = 1, arg1 = 2, asPtr = 10\<rparr> # replicate 15 zero_cmd,
                    numEntries = 1, capacity = 16\<rparr>"

definition one_queued :: RecompQueue where
  "one_queued = \<lparr>entries = \<lparr>op = 0, arg0 = 1, arg1 = 2, asPtr = 7\<rparr> # replicate 15 zero_cmd,
                  numEntries = 1, capacity = 16\<rparr>"

text \<open>
  \<open>push_possible queue ok\<close>: a push finds a free slot, or the queue is full and its growth
  can succeed (the allocator answers \<open>ok\<close>, and the doubled capacity fits 16 bits).
\<close>

definition push_possible :: "RecompQueue \<Rightarrow> bool \<Rightarrow> bool" where
  "push_possible queue ok \<longleftrightarrow>
     unat (numEntries queue) < unat (capacity queue)
     \<or> (ok \<and> 0 < unat (capacity queue) \<and> unat (capacity queue) < 32768)"

section \<open>core/load_status.c: load status and the three caches\<close>

text \<open>
  The status and cache enumerations are declared in the game's headers; the values below
  follow the order of those enumerations.  Only their distinctness matters to the results.
\<close>

definition LOAD_STATUS_NOT_LOADED :: u32 where "LOAD_STATUS_NOT_LOADED = 0"
definition LOAD_STATUS_COMPLETE :: u32 where "LOAD_STATUS_COMPLETE = 2"
definition LOAD_STATUS_PERMANENT :: u32 where "LOAD_STATUS_PERMANENT = 5"

definition SEQUENCE_TABLE :: u32 where "SEQUENCE_TABLE = 0"
definition FONT_TABLE :: u32 where "FONT_TABLE = 1"
definition SAMPLE_TABLE :: u32 where "SAMPLE_TABLE = 2"

definition CACHE_EITHER :: u32 where "CACHE_EITHER = 2"
definition CACHE_PERMANENT :: u32 where "CACHE_PERMANENT = 3"

definition CACHE_LOAD_PERMANENT :: u32 where "CACHE_LOAD_PERMANENT = 0"
definition CACHE_LOAD_PERSISTENT :: u32 where "CACHE_LOAD_PERSISTENT = 1"

definition MAX_PERSISTENT_CACHE_ENTRIES :: int where
  "MAX_PERSISTENT_CACHE_ENTRIES = 16"

text \<open>
  \<open>IS_KSEG0\<close> is the address-range macro of the console SDK: the cached, unmapped segment
  \<open>0x80000000 .. 0x9FFFFFFF\<close>, which is where memory-resident data lives.
\<close>

definition IS_KSEG0 :: "u32 \<Rightarrow> bool" where
  "IS_KSEG0 x \<longleftrightarrow> 0x80000000 \<le> x \<and> x < 0xA0000000"

text \<open>
  \<^verbatim>\<open>AudioTableEntry\<close> and \<^verbatim>\<open>AudioTable\<close>, with the fields the sources use.  The header's entry
  count is kept as an integer; the \<open>entries\<close> list has one element per allocated slot.
\<close>

record AudioTableEntry =
  romAddr :: u32
  size :: u32
  medium :: u8
  cachePolicy :: u8
  shortData1 :: u16
  shortData2 :: u16
  shortData3 :: u16

record AudioTable =
  header_numEntries :: int
  tbl_entries :: "AudioTableEntry list"

text \<open>\<^verbatim>\<open>PersistentCacheEntry { s16 tableType; u32 id; }\<close> and \<^verbatim>\<open>PersistentCache\<close>.\<close>

record PersistentCacheEntry =
  pce_tableType :: u16
  pce_id :: u32

record PersistentCache =
  pc_numEntries :: int
  pc_entries :: "PersistentCacheEntry list"

text \<open>
  The globals of the file.  The two hash sets are sets of keys; the extended status arrays
  are byte lists.  \<open>discardedFonts\<close> records, oldest first, the calls made to
  \<open>AudioHeap_DiscardFont\<close>, a function of the game engine.
\<close>

record load_state =
  persistentCache :: PersistentCache
  permanentCache :: "u32 set"
  loadedCache :: "u32 set"
  sExtSeqLoadStatus :: "u8 list"
  sExtSoundFontLoadStatus :: "u8 list"
  soundFontTable :: AudioTable
  sequenceTable :: AudioTable
  discardedFonts :: "u32 list"

text \<open>
  \<open>AudioLoad_GetRealTableIndex\<close> and \<open>AudioLoad_GetLoadTable\<close> are declared \<open>extern\<close>; every
  function below takes them as the parameters \<open>realIndex\<close> and \<open>loadTable\<close>.
\<close>

definition is_sentinel_id :: "u32 \<Rightarrow> bool" where
  "is_sentinel_id ident \<longleftrightarrow> ident AND 0xFF = 0xFF \<or> ident AND 0xFF = 0xFE"

definition AudioApi_GetTableEntryLoadStatus ::
  "(u32 \<Rightarrow> u32 \<Rightarrow> u32) \<Rightarrow> load_state \<Rightarrow> u32 \<Rightarrow> u32 \<Rightarrow> u32 option" where
  "AudioApi_GetTableEntryLoadStatus realIndex s tableType ident =
     (if ident AND 0xFF = 0xFF \<or> ident AND 0xFF = 0xFE then Some LOAD_STATUS_PERMANENT
      else let realId = realIndex tableType ident
           in if tableType = SEQUENCE_TABLE
              then (if unat realId < length (sExtSeqLoadStatus s)
                    then Some (ucast (sExtSeqLoadStatus s ! unat realId)) else None)
              else if tableType = FONT_TABLE
              then (if unat realId < length (sExtSoundFontLoadStatus s)
                    then Some (ucast (sExtSoundFontLoadStatus s ! unat realId)) else None)
              else Some LOAD_STATUS_NOT_LOADED)"

definition AudioApi_SetTableEntryLoadStatus ::
  "(u32 \<Rightarrow> u32 \<Rightarrow> u32) \<Rightarrow> load_state \<Rightarrow> u32 \<Rightarrow> u32 \<Rightarrow> u32 \<Rightarrow> load_state option" where
  "AudioApi_SetTableEntryLoadStatus realIndex s tableType ident status =
     (if ident AND 0xFF = 0xFF \<or> ident AND 0xFF = 0xFE then Some s
      else let realId = realIndex tableType ident
           in if tableType = SEQUENCE_TABLE
              then (if unat realId < length (sExtSeqLoadStatus s)
                    then Some (s\<lparr>sExtSeqLoadStatus :=
                                 (sExtSeqLoadStatus s)[unat realId := ucast status]\<rparr>)
                    else None)
              else if tableType = FONT_TABLE
              then (if unat realId < length (sExtSoundFontLoadStatus s)
                    then Some (s\<lparr>sExtSoundFontLoadStatus :=
                                 (sExtSoundFontLoadStatus s)[unat realId := ucast status]\<rparr>)
                    else None)
              else Some s)"

text \<open>
  One loop of \<open>AudioHeap_ResetLoadStatus\<close>: \<open>for (i = 0; i < numEntries; i++)\<close> over one
  table.  Neither call in the body touches a table header, so the bound is read once.
\<close>

function reset_loop ::
  "(u32 \<Rightarrow> u32 \<Rightarrow> u32) \<Rightarrow> u32 \<Rightarrow> int \<Rightarrow> int \<Rightarrow> load_state \<Rightarrow> load_state option" where
  "reset_loop realIndex tableType n i s =
     (if i < n
      then (case AudioApi_GetTableEntryLoadStatus realIndex s tableType (word_of_int i) of
              None \<Rightarrow> None
            | Some status \<Rightarrow>
                if status \<noteq> LOAD_STATUS_PERMANENT
                then (case AudioApi_SetTableEntryLoadStatus realIndex s tableType (word_of_int i)
                             LOAD_STATUS_NOT_LOADED of
                        None \<Rightarrow> None
                      | Some s' \<Rightarrow> reset_loop realIndex tableType n (i + 1) s')
                else reset_loop realIndex tableType n (i + 1) s)
      else Some s)"
  by pat_completeness auto
termination
  by (relation "measure (\<lambda>(realIndex, tableType, n, i, s). nat (n - i))") auto

declare reset_loop.simps [simp del]

definition AudioHeap_ResetLoadStatus ::
  "(u32 \<Rightarrow> u32 \<Rightarrow> u32) \<Rightarrow> load_state \<Rightarrow> load_state option" where
  "AudioHeap_ResetLoadStatus realIndex s =
     (let s0 = s\<lparr>persistentCache := (persistentCache s)\<lparr>pc_numEntries := 0\<rparr>\<rparr>
      in case reset_loop realIndex FONT_TABLE (header_numEntries (soundFontTable s0)) 0 s0 of
           None \<Rightarrow> None
         | Some s1 \<Rightarrow>
             reset_loop realIndex SEQUENCE_TABLE (header_numEntries (sequenceTable s1)) 0 s1)"

text \<open>
  \<open>AudioHeap_SearchCaches\<close>.  The result \<open>Some 0\<close> is the NULL pointer; \<open>None\<close> is a read
  outside the table (or through a missing table).
\<close>

definition cache_key :: "u32 \<Rightarrow> u32 \<Rightarrow> u32" where
  "cache_key tableType realId = push_bit 24 tableType OR realId"

definition AudioHeap_SearchCaches ::
  "(u32 \<Rightarrow> u32 \<Rightarrow> u32) \<Rightarrow> (u32 \<Rightarrow> AudioTable option) \<Rightarrow> load_state
     \<Rightarrow> u32 \<Rightarrow> u32 \<Rightarrow> u32 \<Rightarrow> u32 option" where
  "AudioHeap_SearchCaches realIndex loadTable s tableType cache ident =
     (let realId = realIndex tableType ident;
          key = cache_key tableType realId
      in if key \<notin> permanentCache s \<and> cache = CACHE_PERMANENT then Some 0
         else if key \<notin> loadedCache s then Some 0
         else (case loadTable tableType of
                 None \<Rightarrow> None
               | Some table \<Rightarrow>
                   if unat realId < length (tbl_entries table)
                   then (if \<not> IS_KSEG0 (romAddr (tbl_entries table ! unat realId)) then Some 0
                         else Some (romAddr (tbl_entries table ! unat realId)))
                   else None))"

definition AudioHeap_SearchRegularCaches ::
  "(u32 \<Rightarrow> u32 \<Rightarrow> u32) \<Rightarrow> (u32 \<Rightarrow> AudioTable option) \<Rightarrow> load_state
     \<Rightarrow> u32 \<Rightarrow> u32 \<Rightarrow> u32 \<Rightarrow> u32 option" where
  "AudioHeap_SearchRegularCaches realIndex loadTable s tableType cache ident =
     AudioHeap_SearchCaches realIndex loadTable s tableType CACHE_EITHER ident"

definition AudioHeap_SearchPermanentCache ::
  "(u32 \<Rightarrow> u32 \<Rightarrow> u32) \<Rightarrow> (u32 \<Rightarrow> AudioTable option) \<Rightarrow> load_state
     \<Rightarrow> u32 \<Rightarrow> u32 \<Rightarrow> u32 option" where
  "AudioHeap_SearchPermanentCache realIndex loadTable s tableType ident =
     AudioHeap_SearchCaches realIndex loadTable s tableType CACHE_PERMANENT ident"

text \<open>
  \<open>AudioApi_PushFakeCache\<close>.  The stored \<open>tableType\<close> is the 32-bit argument narrowed to
  16 bits; the comparison widens it again (sign-extended).  The duplicate scan reads slots
  \<open>0 .. numEntries - 1\<close>, which lie inside the 16-slot array because the scan runs only
  when \<open>numEntries < 16\<close>; a negative count makes the final store fall outside it.
\<close>

definition pce_matches :: "u32 \<Rightarrow> u32 \<Rightarrow> PersistentCacheEntry \<Rightarrow> bool" where
  "pce_matches tableType realId entry \<longleftrightarrow>
     sint (pce_tableType entry) = sint tableType \<and> pce_id entry = realId"

fun scan_persistent :: "PersistentCacheEntry list \<Rightarrow> u32 \<Rightarrow> u32 \<Rightarrow> bool" where
  "scan_persistent [] tableType realId = False"
| "scan_persistent (entry # rest) tableType realId =
     (if sint (pce_tableType entry) = sint tableType \<and> pce_id entry = realId then True
      else scan_persistent rest tableType realId)"

definition AudioApi_PushFakeCache ::
  "(u32 \<Rightarrow> u32 \<Rightarrow> u32) \<Rightarrow> load_state \<Rightarrow> u32 \<Rightarrow> u32 \<Rightarrow> u32 \<Rightarrow> load_state option" where
  "AudioApi_PushFakeCache realIndex s tableType policy ident =
     (let realId = realIndex tableType ident;
          key = cache_key tableType realId;
          s1 = s\<lparr>loadedCache := insert key (loadedCache s)\<rparr>;
          s2 = (if policy = CACHE_LOAD_PERMANENT
                then s1\<lparr>permanentCache := insert key (permanentCache s1)\<rparr> else s1);
          pc = persistentCache s2;
          n = pc_numEntries pc
      in if policy = CACHE_LOAD_PERSISTENT \<and> n < MAX_PERSISTENT_CACHE_ENTRIES
         then (if scan_persistent (take (nat n) (pc_entries pc)) tableType realId then Some s2
               else if 0 \<le> n \<and> nat n < length (pc_entries pc)
               then Some (s2\<lparr>persistentCache :=
                               pc\<lparr>pc_entries := (pc_entries pc)
                                      [nat n := \<lparr>pce_tableType = ucast tableType, pce_id = realId\<rparr>],
                                  pc_numEntries := n + 1\<rparr>\<rparr>)
               else None)
         else Some s2)"

text \<open>
  \<open>AudioHeap_PopPersistentCache\<close>: the downward scan for the most recent entry of the
  kind, the discard and status reset, and the loop that closes the gap.
\<close>

function find_most_recent :: "PersistentCacheEntry list \<Rightarrow> u32 \<Rightarrow> int \<Rightarrow> int option option" where
  "find_most_recent es tableType i =
     (if i \<ge> 0
      then (if nat i < length es
            then (if sint (pce_tableType (es ! nat i)) = sint tableType then Some (Some i)
                  else find_most_recent es tableType (i - 1))
            else None)
      else Some None)"
  by pat_completeness auto
termination
  by (relation "measure (\<lambda>(es, tableType, i). nat (i + 1))") auto

declare find_most_recent.simps [simp del]

function shift_down :: "int \<Rightarrow> int \<Rightarrow> PersistentCacheEntry list \<Rightarrow> PersistentCacheEntry list option" where
  "shift_down i n es =
     (if i < n
      then (if 0 \<le> i \<and> nat (i + 1) < length es
            then shift_down (i + 1) n (es[nat i := es ! nat (i + 1)])
            else None)
      else Some es)"
  by pat_completeness auto
termination
  by (relation "measure (\<lambda>(i, n, es). nat (n - i))") auto

declare shift_down.simps [simp del]

definition AudioHeap_PopPersistentCache ::
  "(u32 \<Rightarrow> u32 \<Rightarrow> u32) \<Rightarrow> load_state \<Rightarrow> u32 \<Rightarrow> load_state option" where
  "AudioHeap_PopPersistentCache realIndex s tableType =
     (let pc = persistentCache s
      in case find_most_recent (pc_entries pc) tableType (pc_numEntries pc - 1) of
           None \<Rightarrow> None
         | Some None \<Rightarrow> Some s
         | Some (Some i) \<Rightarrow>
             (let entry = pc_entries pc ! nat i;
                  s1 = (if tableType = FONT_TABLE
                        then s\<lparr>discardedFonts := discardedFonts s @ [pce_id entry]\<rparr> else s)
              in case AudioApi_SetTableEntryLoadStatus realIndex s1 tableType (pce_id entry)
                        LOAD_STATUS_NOT_LOADED of
                   None \<Rightarrow> None
                 | Some s2 \<Rightarrow>
                     (case shift_down i (pc_numEntries pc - 1) (pc_entries pc) of
                        None \<Rightarrow> None
                      | Some es \<Rightarrow>
                          Some (s2\<lparr>persistentCache :=
                                     \<lparr>pc_numEntries = pc_numEntries pc - 1, pc_entries = es\<rparr>\<rparr>))))"

text \<open>The entries in use, oldest first, and the representation invariant of the stack.\<close>

definition pstack :: "load_state \<Rightarrow> PersistentCacheEntry list" where
  "pstack s = take (nat (pc_numEntries (persistentCache s))) (pc_entries (persistentCache s))"

definition pc_inv :: "load_state \<Rightarrow> bool" where
  "pc_inv s \<longleftrightarrow>
     0 \<le> pc_numEntries (persistentCache s)
     \<and> pc_numEntries (persistentCache s) \<le> 16
     \<and> length (pc_entries (persistentCache s)) = 16"

text \<open>Statement vocabulary for the status arrays, and an example state.\<close>

definition status_array :: "load_state \<Rightarrow> u32 \<Rightarrow> u8 list" where
  "status_array s tableType =
     (if tableType = SEQUENCE_TABLE then sExtSeqLoadStatus s else sExtSoundFontLoadStatus s)"

definition touched :: "(u32 \<Rightarrow> u32 \<Rightarrow> u32) \<Rightarrow> u32 \<Rightarrow> int \<Rightarrow> int \<Rightarrow> nat set" where
  "touched realIndex tableType i n =
     (\<lambda>j. unat (realIndex tableType (word_of_int j)))
       ` {j. i \<le> j \<and> j < n \<and> \<not> is_sentinel_id (word_of_int j)}"

definition same_but_status :: "load_state \<Rightarrow> load_state \<Rightarrow> bool" where
  "same_but_status s s' \<longleftrightarrow>
     persistentCache s' = persistentCache s \<and> permanentCache s' = permanentCache s
     \<and> loadedCache s' = loadedCache s \<and> soundFontTable s' = soundFontTable s
     \<and> sequenceTable s' = sequenceTable s \<and> discardedFonts s' = discardedFonts s"

text \<open>
  \<open>status_slot_ok\<close>: the status slot of the entry lies inside the status array of its
  kind (an identifier with a reserved low byte has no slot).  \<open>status_covered\<close>: this holds
  for every entry of the font table and of the sequence table.
\<close>

definition status_slot_ok :: "(u32 \<Rightarrow> u32 \<Rightarrow> u32) \<Rightarrow> load_state \<Rightarrow> u32 \<Rightarrow> u32 \<Rightarrow> bool" where
  "status_slot_ok realIndex s tableType ident \<longleftrightarrow>
     is_sentinel_id ident
     \<or> ((tableType = SEQUENCE_TABLE
           \<longrightarrow> unat (realIndex tableType ident) < length (sExtSeqLoadStatus s))
        \<and> (tableType = FONT_TABLE
           \<longrightarrow> unat (realIndex tableType ident) < length (sExtSoundFontLoadStatus s)))"

definition status_covered :: "(u32 \<Rightarrow> u32 \<Rightarrow> u32) \<Rightarrow> load_state \<Rightarrow> bool" where
  "status_covered realIndex s \<longleftrightarrow>
     (\<forall>i. 0 \<le> i \<and> i < header_numEntries (soundFontTable s)
           \<longrightarrow> status_slot_ok realIndex s FONT_TABLE (word_of_int i))
     \<and> (\<forall>i. 0 \<le> i \<and> i < header_numEntries (sequenceTable s)
           \<longrightarrow> status_slot_ok realIndex s SEQUENCE_TABLE (word_of_int i))"

definition identity_index :: "u32 \<Rightarrow> u32 \<Rightarrow> u32" where
  "identity_index tableType ident = ident"

definition empty_table :: "int \<Rightarrow> AudioTable" where
  "empty_table n = \<lparr>header_numEntries = n, tbl_entries = []\<rparr>"

definition reset_example :: load_state where
  "reset_example =
     \<lparr>persistentCache = \<lparr>pc_numEntries = 1,
          pc_entries = replicate 16 \<lparr>pce_tableType = 0, pce_id = 0\<rparr>\<rparr>,
      permanentCache = {}, loadedCache = {},
      sExtSeqLoadStatus = [5, 2], sExtSoundFontLoadStatus = [2],
      soundFontTable = empty_table 1, sequenceTable = empty_table 2,
      discardedFonts = []\<rparr>"

definition reset_example_after :: load_state where
  "reset_example_after =
     \<lparr>persistentCache = \<lparr>pc_numEntries = 0,
          pc_entries = replicate 16 \<lparr>pce_tableType = 0, pce_id = 0\<rparr>\<rparr>,
      permanentCache = {}, loadedCache = {},
      sExtSeqLoadStatus = [5, 0], sExtSoundFontLoadStatus = [0],
      soundFontTable = empty_table 1, sequenceTable = empty_table 2,
      discardedFonts = []\<rparr>"

definition search_example :: load_state where
  "search_example =
     \<lparr>persistentCache = \<lparr>pc_numEntries = 0,
          pc_entries = replicate 16 \<lparr>pce_tableType = 0, pce_id = 0\<rparr>\<rparr>,
      permanentCache = {}, loadedCache = {cache_key SEQUENCE_TABLE 0},
      sExtSeqLoadStatus = [2], sExtSoundFontLoadStatus = [],
      soundFontTable = empty_table 0,
      sequenceTable = \<lparr>header_numEntries = 1,
         tbl_entries = [\<lparr>romAddr = 0x80200000, size = 64, medium = 0, cachePolicy = 0,
                         shortData1 = 0, shortData2 = 0, shortData3 = 0\<rparr>]\<rparr>,
      discardedFonts = []\<rparr>"

definition example_tables :: "load_state \<Rightarrow> u32 \<Rightarrow> AudioTable option" where
  "example_tables s tableType =
     (if tableType = SEQUENCE_TABLE then Some (sequenceTable s)
      else if tableType = FONT_TABLE then Some (soundFontTable s) else None)"

definition is_table_kind :: "u32 \<Rightarrow> bool" where
  "is_table_kind tableType \<longleftrightarrow>
     tableType = SEQUENCE_TABLE \<or> tableType = FONT_TABLE \<or> tableType = SAMPLE_TABLE"

definition mk_entry :: "u32 \<Rightarrow> u32 \<Rightarrow> PersistentCacheEntry" where
  "mk_entry tableType realId = \<lparr>pce_tableType = ucast tableType, pce_id = realId\<rparr>"

fun push_keys :: "(u32 \<Rightarrow> u32 \<Rightarrow> u32) \<Rightarrow> load_state \<Rightarrow> (u32 \<times> u32) list \<Rightarrow> load_state option" where
  "push_keys realIndex s [] = Some s"
| "push_keys realIndex s (k # ks) =
     (case AudioApi_PushFakeCache realIndex s (fst k) CACHE_LOAD_PERSISTENT (snd k) of
        None \<Rightarrow> None
      | Some s' \<Rightarrow> push_keys realIndex s' ks)"

definition zero_entries :: "PersistentCacheEntry list" where
  "zero_entries = replicate 16 \<lparr>pce_tableType = 0, pce_id = 0\<rparr>"

definition boot_state :: load_state where
  "boot_state =
     \<lparr>persistentCache = \<lparr>pc_numEntries = 0, pc_entries = zero_entries\<rparr>,
      permanentCache = {}, loadedCache = {},
      sExtSeqLoadStatus = replicate 8 0, sExtSoundFontLoadStatus = replicate 8 2,
      soundFontTable = empty_table 8, sequenceTable = empty_table 8,
      discardedFonts = []\<rparr>"

definition three_stacked :: load_state where
  "three_stacked =
     boot_state\<lparr>persistentCache := \<lparr>pc_numEntries = 3,
         pc_entries = [mk_entry SEQUENCE_TABLE 3, mk_entry FONT_TABLE 7, mk_entry SEQUENCE_TABLE 5]
                      @ replicate 13 \<lparr>pce_tableType = 0, pce_id = 0\<rparr>\<rparr>\<rparr>"

definition sentinel_stacked :: load_state where
  "sentinel_stacked =
     boot_state\<lparr>persistentCache := \<lparr>pc_numEntries = 1,
         pc_entries = mk_entry FONT_TABLE 0xFE # replicate 15 \<lparr>pce_tableType = 0, pce_id = 0\<rparr>\<rparr>,
       sExtSoundFontLoadStatus := replicate 255 2\<rparr>"

definition sixteen_keys :: "(u32 \<times> u32) list" where
  "sixteen_keys = map (Pair SEQUENCE_TABLE) [0, 1, 2, 3, 4, 5, 6, 7, 8, 9, 10, 11, 12, 13, 14, 15]"

definition two_stacked :: load_state where
  "two_stacked =
     boot_state\<lparr>persistentCache := \<lparr>pc_numEntries = 2,
         pc_entries = [mk_entry SEQUENCE_TABLE 3, mk_entry SEQUENCE_TABLE 5, mk_entry SEQUENCE_TABLE 5]
                      @ replicate 13 \<lparr>pce_tableType = 0, pce_id = 0\<rparr>\<rparr>,
       sExtSoundFontLoadStatus := (replicate 8 2)[7 := 0],
       discardedFonts := [7]\<rparr>"

definition sentinel_popped :: load_state where
  "sentinel_popped =
     boot_state\<lparr>persistentCache := \<lparr>pc_numEntries = 0,
         pc_entries = mk_entry FONT_TABLE 0xFE # replicate 15 \<lparr>pce_tableType = 0, pce_id = 0\<rparr>\<rparr>,
       sExtSoundFontLoadStatus := replicate 255 2,
       discardedFonts := [0xFE]\<rparr>"

section \<open>utils/misc.c: the reference counter and the hash\<close>

text \<open>
  The store of the reference counter is a hash map of the runtime, from 32-bit keys to
  16-bit counts.  A created entry starts at zero, an erased entry is absent, and a lookup of
  an absent key yields the NULL pointer.  Each function returns its result and the store.
\<close>

type_synonym refcounts = "u32 \<rightharpoonup> u16"

definition refcounter_inc :: "refcounts \<Rightarrow> u32 \<Rightarrow> u32 \<times> refcounts" where
  "refcounter_inc rc key =
     (let rc1 = (if key \<notin> dom rc then rc(key \<mapsto> 0) else rc)
      in case rc1 key of
           None \<Rightarrow> (0, rc1)
         | Some count \<Rightarrow> (ucast (count + 1), rc1(key \<mapsto> count + 1)))"

definition refcounter_dec :: "refcounts \<Rightarrow> u32 \<Rightarrow> u32 \<times> refcounts" where
  "refcounter_dec rc key =
     (case rc key of
        None \<Rightarrow> (0, rc)
      | Some count \<Rightarrow>
          if count - 1 = 0 then (0, rc(key := None))
          else (ucast (count - 1), rc(key \<mapsto> count - 1)))"


definition FNV1_32A_INIT :: u32 where
  "FNV1_32A_INIT = 0x811c9dc5"

text \<open>\<open>fnv_32a_buf\<close> over the bytes of the buffer, first byte first.\<close>

fun fnv_32a_buf :: "u8 list \<Rightarrow> u32 \<Rightarrow> u32" where
  "fnv_32a_buf [] hval = hval"
| "fnv_32a_buf (b # bs) hval =
     (let h1 = hval XOR ucast b;
          h2 = h1 + (push_bit 1 h1 + push_bit 4 h1 + push_bit 7 h1 + push_bit 8 h1
                     + push_bit 24 h1)
      in fnv_32a_buf bs h2)"

section \<open>The allocator and the memory it serves\<close>

text \<open>
  \<^verbatim>\<open>Sample\<close> with its bit fields, in declaration order (as the initialiser in
  \<^verbatim>\<open>audiofile.c\<close> lists them).  \<open>loop\<close> and \<open>book\<close> are pointers; 0 is NULL.
\<close>

record Sample =
  unk_0 :: bool
  codec :: u8
  s_medium :: u8
  unk_bit26 :: bool
  isRelocated :: bool
  s_size :: u32
  sampleAddr :: u32
  loop :: u32
  book :: u32

text \<open>
  Memory is a map from the address of a block to its content.  Loop and book data are raw
  bytes, as the hash and the copies read them.  \<open>alloc_plan\<close> lists the values that the
  coming calls of \<open>recomp_alloc\<close> return, 0 for a failed request; an exhausted plan fails.
  \<open>recomp_alloc\<close> takes the content that the caller writes into the fresh block.
\<close>

datatype block =
    SampleBlk Sample
  | BytesBlk "u8 list"
  | TableBlk AudioTable
  | EntryBlk AudioTableEntry

record heap =
  mem :: "u32 \<rightharpoonup> block"
  alloc_plan :: "u32 list"

definition recomp_alloc :: "block \<Rightarrow> 'a heap_scheme \<Rightarrow> u32 \<times> 'a heap_scheme" where
  "recomp_alloc blk h =
     (case alloc_plan h of
        [] \<Rightarrow> (0, h)
      | a # rest \<Rightarrow>
          if a = 0 then (0, h\<lparr>alloc_plan := rest\<rparr>)
          else (a, h\<lparr>mem := (mem h)(a \<mapsto> blk), alloc_plan := rest\<rparr>))"

definition recomp_free :: "u32 \<Rightarrow> 'a heap_scheme \<Rightarrow> 'a heap_scheme" where
  "recomp_free p h = h\<lparr>mem := (mem h)(p := None)\<rparr>"

section \<open>core/soundfont.c: hashing, copying and freeing samples\<close>

text \<open>
  The codec values follow the game's enumeration.  The leading
  \<open>sizeof(Sample) - 2 * sizeof(uintptr_t)\<close> bytes of a sample are the word of bit fields
  and \<open>sampleAddr\<close>, stored big-endian: one byte of flags (\<open>unk_0\<close> in the top bit, then
  \<open>codec\<close>, \<open>medium\<close>, \<open>unk_bit26\<close>, \<open>isRelocated\<close>), the 24-bit size, the address.
  \<^verbatim>\<open>AdpcmLoopHeader\<close> is four 32-bit words (\<open>start\<close>, \<open>loopEnd\<close>, \<open>count\<close>, \<open>sampleEnd\<close>),
  \<^verbatim>\<open>AdpcmLoop\<close> adds 16 predictor halfwords, \<^verbatim>\<open>AdpcmBookHeader\<close> is \<open>order\<close> and
  \<open>numPredictors\<close>.
\<close>

definition CODEC_ADPCM :: u8 where "CODEC_ADPCM = 0"
definition CODEC_SMALL_ADPCM :: u8 where "CODEC_SMALL_ADPCM = 3"
definition CODEC_S16 :: u8 where "CODEC_S16 = 5"
definition MEDIUM_CART :: u8 where "MEDIUM_CART = 2"

definition be32 :: "u32 \<Rightarrow> u8 list" where
  "be32 w = [ucast (drop_bit 24 w), ucast (drop_bit 16 w), ucast (drop_bit 8 w), ucast w]"

definition sample_header_bytes :: "Sample \<Rightarrow> u8 list" where
  "sample_header_bytes smp =
     [(if unk_0 smp then 0x80 else 0) OR push_bit 4 (codec smp AND 7)
        OR push_bit 2 (s_medium smp AND 3) OR (if unk_bit26 smp then 2 else 0)
        OR (if isRelocated smp then 1 else 0),
      ucast (drop_bit 16 (s_size smp)), ucast (drop_bit 8 (s_size smp)), ucast (s_size smp)]
     @ be32 (sampleAddr smp)"

definition read_be32 :: "u8 list \<Rightarrow> nat \<Rightarrow> u32 option" where
  "read_be32 bs off =
     (if off + 4 \<le> length bs
      then Some (push_bit 24 (ucast (bs ! off)) OR push_bit 16 (ucast (bs ! (off + 1)))
                 OR push_bit 8 (ucast (bs ! (off + 2))) OR ucast (bs ! (off + 3)))
      else None)"

definition loop_size :: "u8 list \<Rightarrow> nat option" where
  "loop_size bs =
     (case read_be32 bs 8 of
        None \<Rightarrow> None
      | Some count \<Rightarrow> Some (if count \<noteq> 0 then 48 else 16))"

definition book_size :: "u8 list \<Rightarrow> nat option" where
  "book_size bs =
     (case read_be32 bs 0 of
        None \<Rightarrow> None
      | Some order \<Rightarrow>
          (case read_be32 bs 4 of
             None \<Rightarrow> None
           | Some numPredictors \<Rightarrow> Some (unat (8 + 2 * 8 * order * numPredictors))))"

record sample_state = heap +
  sampleHashmap :: "u32 \<rightharpoonup> u32"
  refcounter :: refcounts

text \<open>
  The bytes that the hash reads at a loop or book pointer: the size comes from the header
  found there.  \<open>None\<close> is a read outside any block.
\<close>

definition region_size :: "sample_state \<Rightarrow> u32 \<Rightarrow> (u8 list \<Rightarrow> nat option) \<Rightarrow> (nat \<times> u8 list) option" where
  "region_size s p sizeOf =
     (case mem s p of
        Some (BytesBlk bs) \<Rightarrow> map_option (\<lambda>n. (n, bs)) (sizeOf bs)
      | _ \<Rightarrow> None)"

definition region_bytes :: "sample_state \<Rightarrow> u32 \<Rightarrow> (u8 list \<Rightarrow> nat option) \<Rightarrow> u8 list option" where
  "region_bytes s p sizeOf =
     (case region_size s p sizeOf of
        None \<Rightarrow> None
      | Some (n, bs) \<Rightarrow> if n \<le> length bs then Some (take n bs) else None)"

definition AudioApi_HashSample :: "sample_state \<Rightarrow> u32 \<Rightarrow> u32 option" where
  "AudioApi_HashSample s sample =
     (if sample = 0 then Some 0
      else case mem s sample of
        Some (SampleBlk smp) \<Rightarrow>
          (let hval = fnv_32a_buf (sample_header_bytes smp) FNV1_32A_INIT
           in case (if loop smp \<noteq> 0
                    then map_option (\<lambda>bs. fnv_32a_buf bs hval) (region_bytes s (loop smp) loop_size)
                    else Some hval) of
                None \<Rightarrow> None
              | Some hval1 \<Rightarrow>
                  if book smp \<noteq> 0
                  then map_option (\<lambda>bs. fnv_32a_buf bs hval1) (region_bytes s (book smp) book_size)
                  else Some hval1)
      | _ \<Rightarrow> None)"

definition AudioApi_FreeSample :: "sample_state \<Rightarrow> u32 \<Rightarrow> sample_state option" where
  "AudioApi_FreeSample s sample =
     (if sample = 0 then Some s
      else let r = refcounter_dec (refcounter s) sample;
               s1 = s\<lparr>refcounter := snd r\<rparr>
           in if fst r > 0 then Some s1
              else case mem s1 sample of
                Some (SampleBlk smp) \<Rightarrow>
                  (let s2 = (if loop smp \<noteq> 0 then recomp_free (loop smp) s1 else s1);
                       s3 = (if book smp \<noteq> 0 then recomp_free (book smp) s2 else s2)
                   in Some (recomp_free sample s3))
              | _ \<Rightarrow> None)"

text \<open>
  \<open>AudioApi_CopySample\<close>.  The result pairs the returned pointer with the state; \<open>None\<close> is
  a read outside any block.  \<open>copy_region\<close> is the size computation, the allocation and the
  \<open>Lib_MemCpy\<close> of a loop or a book; \<open>copy_fresh\<close> is the part of the function after the
  lookup of the hash.  The failure paths call \<open>AudioApi_FreeSample\<close> on the unfinished copy,
  whose \<open>book\<close> field may still hold the pointer copied from the source.
\<close>

definition store_sample :: "u32 \<Rightarrow> Sample \<Rightarrow> sample_state \<Rightarrow> sample_state" where
  "store_sample p smp s = s\<lparr>mem := (mem s)(p \<mapsto> SampleBlk smp)\<rparr>"

definition copy_region ::
  "sample_state \<Rightarrow> u32 \<Rightarrow> (u8 list \<Rightarrow> nat option) \<Rightarrow> (u32 \<times> sample_state) option" where
  "copy_region s p sizeOf =
     (case region_size s p sizeOf of
        None \<Rightarrow> None
      | Some (n, bs) \<Rightarrow>
          (let a = recomp_alloc (BytesBlk (take n bs)) s
           in if fst a = 0 then Some a
              else if n \<le> length bs then Some a else None))"

definition finish_copy :: "sample_state \<Rightarrow> u32 \<Rightarrow> u32 \<Rightarrow> u32 \<times> sample_state" where
  "finish_copy s copy hval =
     (if hval \<noteq> 0
      then (copy, s\<lparr>refcounter := snd (refcounter_inc (refcounter s) copy),
                     sampleHashmap := (sampleHashmap s)(hval \<mapsto> copy)\<rparr>)
      else (copy, s))"

definition copy_book ::
  "sample_state \<Rightarrow> Sample \<Rightarrow> u32 \<Rightarrow> Sample \<Rightarrow> u32 \<Rightarrow> (u32 \<times> sample_state) option" where
  "copy_book s src copy cur hval =
     (if book src \<noteq> 0
      then (case copy_region s (book src) book_size of
              None \<Rightarrow> None
            | Some (b, s1) \<Rightarrow>
                (let s2 = store_sample copy (cur\<lparr>book := b\<rparr>) s1
                 in if b = 0 then map_option (Pair 0) (AudioApi_FreeSample s2 copy)
                    else Some (finish_copy s2 copy hval)))
      else Some (finish_copy s copy hval))"

definition copy_fresh :: "sample_state \<Rightarrow> Sample \<Rightarrow> u32 \<Rightarrow> (u32 \<times> sample_state) option" where
  "copy_fresh s src hval =
     (let copy0 = (if IS_KSEG0 (sampleAddr src)
                   then src\<lparr>s_medium := MEDIUM_CART, unk_bit26 := False, isRelocated := True\<rparr>
                   else src\<lparr>isRelocated := False\<rparr>);
          a = recomp_alloc (SampleBlk copy0) s
      in if fst a = 0 then Some (0, snd a)
         else if loop src \<noteq> 0
         then (case copy_region (snd a) (loop src) loop_size of
                 None \<Rightarrow> None
               | Some (l, s1) \<Rightarrow>
                   (let s2 = store_sample (fst a) (copy0\<lparr>loop := l\<rparr>) s1
                    in if l = 0 then map_option (Pair 0) (AudioApi_FreeSample s2 (fst a))
                       else copy_book s2 src (fst a) (copy0\<lparr>loop := l\<rparr>) hval))
         else copy_book (snd a) src (fst a) copy0 hval)"

definition AudioApi_CopySample :: "sample_state \<Rightarrow> u32 \<Rightarrow> (u32 \<times> sample_state) option" where
  "AudioApi_CopySample s src =
     (if src = 0 then Some (0, s)
      else case mem s src of
        Some (SampleBlk smp) \<Rightarrow>
          if codec smp = CODEC_ADPCM \<or> codec smp = CODEC_SMALL_ADPCM
          then (case AudioApi_HashSample s src of
                  None \<Rightarrow> None
                | Some hval \<Rightarrow>
                    (case sampleHashmap s hval of
                       Some dupe \<Rightarrow>
                         Some (dupe, s\<lparr>refcounter := snd (refcounter_inc (refcounter s) dupe)\<rparr>)
                     | None \<Rightarrow> copy_fresh s smp hval))
          else copy_fresh s smp 0
      | _ \<Rightarrow> None)"

text \<open>
  Statement vocabulary for the allocator: a plan is fresh when the addresses it will hand
  out are pairwise different and not in use; \<open>keeps m m'\<close> says that every block of \<open>m\<close> is
  unchanged in \<open>m'\<close>; \<open>copied s s' c\<close> says that \<open>s'\<close> is \<open>s\<close> plus a sample at the unused address
  \<open>c\<close> and the loop and book blocks this sample points to, all at unused addresses.
\<close>

definition plan_fresh :: "'a heap_scheme \<Rightarrow> bool" where
  "plan_fresh h \<longleftrightarrow>
     distinct (filter (\<lambda>a. a \<noteq> 0) (alloc_plan h))
     \<and> (\<forall>a \<in> set (alloc_plan h). a \<noteq> 0 \<longrightarrow> mem h a = None)"

definition keeps :: "(u32 \<rightharpoonup> block) \<Rightarrow> (u32 \<rightharpoonup> block) \<Rightarrow> bool" where
  "keeps m m' \<longleftrightarrow> (\<forall>a. m a \<noteq> None \<longrightarrow> m' a = m a)"

definition copied :: "sample_state \<Rightarrow> sample_state \<Rightarrow> u32 \<Rightarrow> bool" where
  "copied s s' c \<longleftrightarrow>
     mem s c = None \<and> keeps (mem s) (mem s')
     \<and> (\<exists>cp. mem s' c = Some (SampleBlk cp)
           \<and> (loop cp \<noteq> 0 \<longrightarrow> mem s (loop cp) = None)
           \<and> (book cp \<noteq> 0 \<longrightarrow> mem s (book cp) = None)
           \<and> (\<forall>a. mem s a = None \<and> a \<noteq> c \<and> \<not> (a = loop cp \<and> loop cp \<noteq> 0)
                  \<and> \<not> (a = book cp \<and> book cp \<noteq> 0) \<longrightarrow> mem s' a = None))"



text \<open>
  Example memory: a sample at \<open>0x80300000\<close> with a 16-byte loop header (count 0) and a book
  of order 2 with one predictor, and six addresses that the allocator will hand out.
\<close>

definition adpcm_loop_bytes :: "u8 list" where
  "adpcm_loop_bytes = [0, 0, 0, 0, 0, 0, 1, 0, 0, 0, 0, 0, 0, 0, 1, 0]"

definition adpcm_book_bytes :: "u8 list" where
  "adpcm_book_bytes =
     [0, 0, 0, 2, 0, 0, 0, 1,
      1, 8, 15, 22, 29, 36, 43, 50, 57, 64, 71, 78, 85, 92, 99, 106,
      113, 120, 127, 134, 141, 148, 155, 162, 169, 176, 183, 190, 197, 204, 211, 218]"

definition adpcm_sample :: "u32 \<Rightarrow> Sample" where
  "adpcm_sample addr =
     \<lparr>unk_0 = False, codec = CODEC_ADPCM, s_medium = 0, unk_bit26 = False, isRelocated = False,
      s_size = 0x100, sampleAddr = addr, loop = 0x80300010, book = 0x80300040\<rparr>"


definition plain_sample :: Sample where
  "plain_sample =
     \<lparr>unk_0 = False, codec = CODEC_S16, s_medium = MEDIUM_CART, unk_bit26 = False,
      isRelocated = False, s_size = 0x200, sampleAddr = 0x80500000, loop = 0, book = 0\<rparr>"

definition two_sample_heap :: sample_state where
  "two_sample_heap =
     \<lparr>mem = [0x80300000 \<mapsto> SampleBlk (adpcm_sample 0x80400000),
             0x80300010 \<mapsto> BytesBlk adpcm_loop_bytes,
             0x80300040 \<mapsto> BytesBlk adpcm_book_bytes,
             0x80300080 \<mapsto> SampleBlk plain_sample],
      alloc_plan = [0x81000000, 0x81000010, 0x81000040, 0x81000100, 0x81000110, 0x81000140],
      sampleHashmap = Map.empty, refcounter = Map.empty\<rparr>"




section \<open>core/sequence.c and core/samplebank.c: the growable tables\<close>

text \<open>
  \<^verbatim>\<open>AudioApiInitPhase\<close>, in the order that the header comment of \<^verbatim>\<open>sequence.c\<close> gives:
  NOT_READY(0), QUEUEING(1), QUEUED(2), READY(3).  The phase is advanced by the start-up
  code: QUEUEING while the mods register, QUEUED while the \<^verbatim>\<open>AudioApi_ReadyInternal\<close> callbacks
  drain the queues, READY after that.
\<close>

datatype AudioApiInitPhase =
    AUDIOAPI_INIT_NOT_READY
  | AUDIOAPI_INIT_QUEUEING
  | AUDIOAPI_INIT_QUEUED
  | AUDIOAPI_INIT_READY

text \<open>
  The globals of the two files.  Tables and arrays are pointers into the memory of the
  allocator section: \<open>TableBlk\<close> for an \<^verbatim>\<open>AudioTable\<close>, \<open>BytesBlk\<close> for the font table, the
  flags and the load status, \<open>EntryBlk\<close> for the heap copy of an entry.  A queue pointer is
  \<open>None\<close> when it is NULL or has been destroyed.  Values of type \<^verbatim>\<open>s32\<close> are integers.
\<close>

record audio_state = heap +
  gAudioApiInitPhase :: AudioApiInitPhase
  gAudioCtx_sequenceTable :: u32
  gAudioCtx_sequenceFontTable :: u32
  gAudioCtx_numSequences :: int
  sExtSeqFlags :: u32
  sExtSeqLoadStatus_ptr :: u32
  sequenceTableCapacity :: u16
  sequenceQueue :: "RecompQueue option"
  sLoggedFrogSongReplaceIgnore :: bool
  gAudioCtx_sampleBankTable :: u32
  sampleBankTableCapacity :: u16
  sampleBankQueue :: "RecompQueue option"

definition NA_SAMPLEBANK_MAX :: u16 where "NA_SAMPLEBANK_MAX = 3"




definition MAX_FONTS_PER_SEQUENCE :: nat where "MAX_FONTS_PER_SEQUENCE = 4"





subsection \<open>Reading and writing memory\<close>

definition table_at :: "'a heap_scheme \<Rightarrow> u32 \<Rightarrow> AudioTable option" where
  "table_at h p = (case mem h p of Some (TableBlk t) \<Rightarrow> Some t | _ \<Rightarrow> None)"

definition bytes_at :: "'a heap_scheme \<Rightarrow> u32 \<Rightarrow> u8 list option" where
  "bytes_at h p = (case mem h p of Some (BytesBlk bs) \<Rightarrow> Some bs | _ \<Rightarrow> None)"

definition entry_at :: "'a heap_scheme \<Rightarrow> u32 \<Rightarrow> AudioTableEntry option" where
  "entry_at h p = (case mem h p of Some (EntryBlk e) \<Rightarrow> Some e | _ \<Rightarrow> None)"

definition store_block :: "u32 \<Rightarrow> block \<Rightarrow> 'a heap_scheme \<Rightarrow> 'a heap_scheme" where
  "store_block p blk h = h\<lparr>mem := (mem h)(p \<mapsto> blk)\<rparr>"

definition zero_entry :: AudioTableEntry where
  "zero_entry = \<lparr>romAddr = 0, size = 0, medium = 0, cachePolicy = 0,
                  shortData1 = 0, shortData2 = 0, shortData3 = 0\<rparr>"

text \<open>
  Byte buffers: a copy into a buffer and a read from it, \<open>None\<close> outside the buffer; a
  16-bit cell is two bytes, the high byte first.
\<close>

definition write_bytes :: "u8 list \<Rightarrow> nat \<Rightarrow> u8 list \<Rightarrow> u8 list option" where
  "write_bytes buf off bs =
     (if off + length bs \<le> length buf
      then Some (take off buf @ bs @ drop (off + length bs) buf)
      else None)"

definition read_bytes :: "u8 list \<Rightarrow> nat \<Rightarrow> nat \<Rightarrow> u8 list option" where
  "read_bytes buf off n =
     (if off + n \<le> length buf then Some (take n (drop off buf)) else None)"

definition be16 :: "u16 \<Rightarrow> u8 list" where
  "be16 w = [ucast (drop_bit 8 w), ucast w]"

definition read_u16 :: "u8 list \<Rightarrow> nat \<Rightarrow> nat option" where
  "read_u16 buf i =
     (if 2 * i + 2 \<le> length buf
      then Some (unat (buf ! (2 * i)) * 256 + unat (buf ! (2 * i + 1)))
      else None)"

subsection \<open>Statements shared by the two files\<close>


text \<open>
  A push into a queue of the state.  The queue is held by value; the one allocation of
  \<open>RecompQueue_Grow\<close> takes its outcome from the plan of the allocator and uses it up.
\<close>

definition alloc_ok :: "'a heap_scheme \<Rightarrow> bool" where
  "alloc_ok h = (case alloc_plan h of [] \<Rightarrow> False | a # rest \<Rightarrow> a \<noteq> 0)"




text \<open>
  One array of a growth: \<^verbatim>\<open>recomp_alloc(newSize)\<close>, and for a block that was obtained
  \<^verbatim>\<open>Lib_MemSet(new, 0, newSize); Lib_MemCpy(new, old, oldSize)\<close>.  The copy is \<open>None\<close> when it
  reads past the old block or writes past the new one.  The table header is copied with the
  entries.  The result pointer is 0 when the allocation failed.
\<close>

definition grown_table :: "AudioTable \<Rightarrow> nat \<Rightarrow> nat \<Rightarrow> AudioTable option" where
  "grown_table old oldCapacity newCapacity =
     (if newCapacity < oldCapacity \<or> length (tbl_entries old) < oldCapacity then None
      else Some \<lparr>header_numEntries = header_numEntries old,
                 tbl_entries = take oldCapacity (tbl_entries old)
                               @ replicate (newCapacity - oldCapacity) zero_entry\<rparr>)"

definition grown_bytes :: "u8 list \<Rightarrow> nat \<Rightarrow> nat \<Rightarrow> u8 list option" where
  "grown_bytes old oldCapacity newCapacity =
     (if newCapacity < oldCapacity \<or> length old < oldCapacity then None
      else Some (take oldCapacity old @ replicate (newCapacity - oldCapacity) 0))"

definition grow_table ::
  "u32 \<Rightarrow> nat \<Rightarrow> nat \<Rightarrow> 'a heap_scheme \<Rightarrow> (u32 \<times> 'a heap_scheme) option" where
  "grow_table old oldCapacity newCapacity h =
     (case recomp_alloc (TableBlk \<lparr>header_numEntries = 0,
                                   tbl_entries = replicate newCapacity zero_entry\<rparr>) h of
        (p, h1) \<Rightarrow>
          if p = 0 then Some (0, h1)
          else (case table_at h1 old of
                  None \<Rightarrow> None
                | Some t \<Rightarrow>
                    (case grown_table t oldCapacity newCapacity of
                       None \<Rightarrow> None
                     | Some t' \<Rightarrow> Some (p, store_block p (TableBlk t') h1))))"

definition grow_bytes ::
  "u32 \<Rightarrow> nat \<Rightarrow> nat \<Rightarrow> 'a heap_scheme \<Rightarrow> (u32 \<times> 'a heap_scheme) option" where
  "grow_bytes old oldCapacity newCapacity h =
     (case recomp_alloc (BytesBlk (replicate newCapacity 0)) h of
        (p, h1) \<Rightarrow>
          if p = 0 then Some (0, h1)
          else (case bytes_at h1 old of
                  None \<Rightarrow> None
                | Some bs \<Rightarrow>
                    (case grown_bytes bs oldCapacity newCapacity of
                       None \<Rightarrow> None
                     | Some bs' \<Rightarrow> Some (p, store_block p (BytesBlk bs') h1))))"

text \<open>
  The \<^verbatim>\<open>cleanup\<close> label frees each new buffer that is not NULL; the success path frees each
  old buffer that \<^verbatim>\<open>IS_RECOMP_ALLOC\<close> accepts.  The macro is a parameter.
\<close>

definition free_new :: "u32 list \<Rightarrow> 'a heap_scheme \<Rightarrow> 'a heap_scheme" where
  "free_new ps h = fold (\<lambda>p h. if p \<noteq> 0 then recomp_free p h else h) ps h"

definition free_old :: "(u32 \<Rightarrow> bool) \<Rightarrow> u32 list \<Rightarrow> 'a heap_scheme \<Rightarrow> 'a heap_scheme" where
  "free_old isRecompAlloc ps h =
     fold (\<lambda>p h. if isRecompAlloc p then recomp_free p h else h) ps h"

subsection \<open>core/sequence.c\<close>

text \<open>
  \<open>AudioApi_RebuildSequenceFontTable\<close>.  The new table has \<open>(2 + 4 + 1) * newCapacity\<close>
  bytes: a 16-bit offset per sequence, then five bytes per sequence.  The loop variable is
  a \<^verbatim>\<open>u16\<close> below \<open>newCapacity\<close>, so the loop visits \<open>0 .. newCapacity - 1\<close>.  The offset is
  stored truncated to 16 bits.  For a sequence of the old table the loop copies
  \<open>numFonts + 1\<close> bytes of its old entry.
\<close>

definition rebuild_step ::
  "u8 list option \<Rightarrow> nat \<Rightarrow> nat \<Rightarrow> nat \<Rightarrow> u8 list \<Rightarrow> u8 list option" where
  "rebuild_step old oldCapacity newCapacity seqId new =
     (case write_bytes new (2 * seqId)
             (be16 (of_nat (2 * newCapacity + seqId * (MAX_FONTS_PER_SEQUENCE + 1)))) of
        None \<Rightarrow> None
      | Some new1 \<Rightarrow>
          if seqId < oldCapacity
          then (case old of
                  None \<Rightarrow> None
                | Some tbl \<Rightarrow>
                   (case read_u16 tbl seqId of
                      None \<Rightarrow> None
                    | Some index \<Rightarrow>
                       (case read_bytes tbl index 1 of
                          None \<Rightarrow> None
                        | Some numFonts \<Rightarrow>
                           (case read_bytes tbl index (unat (hd numFonts) + 1) of
                              None \<Rightarrow> None
                            | Some bs \<Rightarrow>
                                write_bytes new1
                                  (2 * newCapacity + seqId * (MAX_FONTS_PER_SEQUENCE + 1)) bs))))
          else Some new1)"

fun rebuild_loop ::
  "u8 list option \<Rightarrow> nat \<Rightarrow> nat \<Rightarrow> nat list \<Rightarrow> u8 list \<Rightarrow> u8 list option" where
  "rebuild_loop old oldCapacity newCapacity [] new = Some new"
| "rebuild_loop old oldCapacity newCapacity (seqId # rest) new =
     (case rebuild_step old oldCapacity newCapacity seqId new of
        None \<Rightarrow> None
      | Some new' \<Rightarrow> rebuild_loop old oldCapacity newCapacity rest new')"

definition AudioApi_RebuildSequenceFontTable ::
  "audio_state \<Rightarrow> u16 \<Rightarrow> u16 \<Rightarrow> (u32 \<times> audio_state) option" where
  "AudioApi_RebuildSequenceFontTable st oldCapacity newCapacity =
     (let newSize = (2 + MAX_FONTS_PER_SEQUENCE + 1) * unat newCapacity
      in case recomp_alloc (BytesBlk (replicate newSize 0)) st of
           (newSeqFontTable, st1) \<Rightarrow>
             if newSeqFontTable = 0 then Some (0, st1)
             else (case rebuild_loop (bytes_at st1 (gAudioCtx_sequenceFontTable st1))
                          (unat oldCapacity) (unat newCapacity) [0 ..< unat newCapacity]
                          (replicate newSize 0) of
                     None \<Rightarrow> None
                   | Some new \<Rightarrow>
                       Some (newSeqFontTable,
                             store_block newSeqFontTable (BytesBlk new) st1)))"

text \<open>
  \<open>AudioApi_GrowSequenceTables\<close>: \<open>newCapacity = sequenceTableCapacity << 1\<close> in 16 bits,
  four allocations in turn, \<^verbatim>\<open>goto cleanup\<close> at the first that fails.  The globals are
  assigned only after the fourth.
\<close>

definition AudioApi_GrowSequenceTables ::
  "(u32 \<Rightarrow> bool) \<Rightarrow> audio_state \<Rightarrow> (bool \<times> audio_state) option" where
  "AudioApi_GrowSequenceTables isRecompAlloc st =
     (let oldCapacity = sequenceTableCapacity st;
          newCapacity = push_bit 1 (sequenceTableCapacity st) :: u16
      in case grow_table (gAudioCtx_sequenceTable st) (unat oldCapacity) (unat newCapacity) st of
           None \<Rightarrow> None
         | Some (newSeqTable, st1) \<Rightarrow>
            if newSeqTable = 0 then Some (False, free_new [newSeqTable, 0, 0, 0] st1)
            else
             (case AudioApi_RebuildSequenceFontTable st1 oldCapacity newCapacity of
                None \<Rightarrow> None
              | Some (newSeqFontTable, st2) \<Rightarrow>
                 if newSeqFontTable = 0
                 then Some (False, free_new [newSeqTable, newSeqFontTable, 0, 0] st2)
                 else
                  (case grow_bytes (sExtSeqFlags st2) (unat oldCapacity) (unat newCapacity) st2 of
                     None \<Rightarrow> None
                   | Some (newSeqFlags, st3) \<Rightarrow>
                      if newSeqFlags = 0
                      then Some (False,
                             free_new [newSeqTable, newSeqFontTable, newSeqFlags, 0] st3)
                      else
                       (case grow_bytes (sExtSeqLoadStatus_ptr st3)
                               (unat oldCapacity) (unat newCapacity) st3 of
                          None \<Rightarrow> None
                        | Some (newSeqLoadStatus, st4) \<Rightarrow>
                           if newSeqLoadStatus = 0
                           then Some (False,
                                  free_new [newSeqTable, newSeqFontTable, newSeqFlags,
                                            newSeqLoadStatus] st4)
                           else Some (True,
                                  (free_old isRecompAlloc
                                     [gAudioCtx_sequenceTable st4,
                                      gAudioCtx_sequenceFontTable st4,
                                      sExtSeqFlags st4, sExtSeqLoadStatus_ptr st4] st4)
                                  \<lparr>gAudioCtx_sequenceTable := newSeqTable,
                                   gAudioCtx_sequenceFontTable := newSeqFontTable,
                                   sExtSeqFlags := newSeqFlags,
                                   sExtSeqLoadStatus_ptr := newSeqLoadStatus,
                                   sequenceTableCapacity := newCapacity\<rparr>)))))"










subsection \<open>core/samplebank.c\<close>

definition AudioApi_GrowSampleBankTables ::
  "(u32 \<Rightarrow> bool) \<Rightarrow> audio_state \<Rightarrow> (bool \<times> audio_state) option" where
  "AudioApi_GrowSampleBankTables isRecompAlloc st =
     (let oldCapacity = sampleBankTableCapacity st;
          newCapacity = push_bit 1 (sampleBankTableCapacity st) :: u16
      in case grow_table (gAudioCtx_sampleBankTable st)
                (unat oldCapacity) (unat newCapacity) st of
           None \<Rightarrow> None
         | Some (newSampleBankTable, st1) \<Rightarrow>
            if newSampleBankTable = 0 then Some (False, free_new [newSampleBankTable] st1)
            else Some (True,
                   (free_old isRecompAlloc [gAudioCtx_sampleBankTable st1] st1)
                   \<lparr>gAudioCtx_sampleBankTable := newSampleBankTable,
                    sampleBankTableCapacity := newCapacity\<rparr>))"





text \<open>
  Statement vocabulary for the growth.  \<open>some_alloc_fails n plan\<close>: one of the next \<open>n\<close>
  requests fails.  \<open>font_table_ok n tbl\<close>: the first \<open>n\<close> header cells of the font table
  point at font lists of at most four fonts that lie inside the table.
  \<open>seq_tables_ok\<close>: the four arrays of the sequences are allocated with at least
  \<open>sequenceTableCapacity\<close> slots, and the doubled capacity fits 16 bits.
\<close>

definition some_alloc_fails :: "nat \<Rightarrow> u32 list \<Rightarrow> bool" where
  "some_alloc_fails n plan \<longleftrightarrow> length plan < n \<or> 0 \<in> set (take n plan)"

definition font_list_ok :: "u8 list \<Rightarrow> nat \<Rightarrow> bool" where
  "font_list_ok tbl i =
     (case read_u16 tbl i of
        None \<Rightarrow> False
      | Some index \<Rightarrow>
          index < length tbl \<and> unat (tbl ! index) \<le> MAX_FONTS_PER_SEQUENCE
          \<and> index + unat (tbl ! index) + 1 \<le> length tbl)"

definition font_table_ok :: "nat \<Rightarrow> u8 list \<Rightarrow> bool" where
  "font_table_ok n tbl \<longleftrightarrow> (\<forall>i<n. font_list_ok tbl i)"

definition seq_tables_ok :: "audio_state \<Rightarrow> bool" where
  "seq_tables_ok st \<longleftrightarrow>
     unat (sequenceTableCapacity st) < 32768
     \<and> (case table_at st (gAudioCtx_sequenceTable st) of
          None \<Rightarrow> False
        | Some t \<Rightarrow> unat (sequenceTableCapacity st) \<le> length (tbl_entries t))
     \<and> (case bytes_at st (gAudioCtx_sequenceFontTable st) of
          None \<Rightarrow> False
        | Some tbl \<Rightarrow> font_table_ok (unat (sequenceTableCapacity st)) tbl)
     \<and> (case bytes_at st (sExtSeqFlags st) of
          None \<Rightarrow> False
        | Some flags \<Rightarrow> unat (sequenceTableCapacity st) \<le> length flags)
     \<and> (case bytes_at st (sExtSeqLoadStatus_ptr st) of
          None \<Rightarrow> False
        | Some status \<Rightarrow> unat (sequenceTableCapacity st) \<le> length status)"

text \<open>
  An example state: two sequences in tables of capacity 2, three sample banks in a table
  of capacity 3.  The font table has the two header cells 4 and 9, then the font lists
  \<open>(1: 3)\<close> and \<open>(2: 3, 5)\<close>.  The allocator serves two requests and refuses the third.
\<close>

definition example_entry :: "u32 \<Rightarrow> AudioTableEntry" where
  "example_entry a = \<lparr>romAddr = a, size = 0x40, medium = 2, cachePolicy = 0,
                       shortData1 = 0, shortData2 = 0, shortData3 = 0\<rparr>"

definition grow_example :: audio_state where
  "grow_example =
     \<lparr>mem = [0x80100000 \<mapsto> TableBlk \<lparr>header_numEntries = 2,
                              tbl_entries = [example_entry 0x1000, example_entry 0x2000]\<rparr>,
             0x80100100 \<mapsto> BytesBlk [0, 4, 0, 9, 1, 3, 0, 0, 0, 2, 3, 5, 0, 0],
             0x80100200 \<mapsto> BytesBlk [0, 0],
             0x80100300 \<mapsto> BytesBlk [2, 0],
             0x80100400 \<mapsto> TableBlk \<lparr>header_numEntries = 3,
                              tbl_entries = [example_entry 0x3000, example_entry 0x4000,
                                             example_entry 0x5000]\<rparr>],
      alloc_plan = [0x81000000, 0x81000100, 0, 0x81000200],
      gAudioApiInitPhase = AUDIOAPI_INIT_QUEUEING,
      gAudioCtx_sequenceTable = 0x80100000,
      gAudioCtx_sequenceFontTable = 0x80100100,
      gAudioCtx_numSequences = 2,
      sExtSeqFlags = 0x80100200,
      sExtSeqLoadStatus_ptr = 0x80100300,
      sequenceTableCapacity = 2,
      sequenceQueue = None,
      sLoggedFrogSongReplaceIgnore = False,
      gAudioCtx_sampleBankTable = 0x80100400,
      sampleBankTableCapacity = 3,
      sampleBankQueue = None\<rparr>"





















section \<open>Results on the command queue\<close>

lemma scan_not_queued_filter:
  "scan_not_queued cs opc a0 a1 \<longleftrightarrow> filter (cmd_matches opc a0 a1) cs = []"
  by (induction cs) (auto simp: cmd_matches_def)

lemma unat_u16_lt: "unat (x :: u16) < 65536"
  using unsigned_less [of x, where ?'a = nat] by simp

lemma store_cmd_queued:
  assumes "store_cmd queue cmd = Some queue'" and "length (entries queue) = unat (capacity queue)"
  shows "queued queue' = queued queue @ [cmd] \<and> capacity queue' = capacity queue
         \<and> unat (numEntries queue') = Suc (unat (numEntries queue))
         \<and> length (entries queue') = length (entries queue)
         \<and> unat (numEntries queue') \<le> length (entries queue')"
proof -
  from assms have lt: "unat (numEntries queue) < length (entries queue)"
    and q': "queue' = queue\<lparr>entries := (entries queue)[unat (numEntries queue) := cmd],
                       numEntries := numEntries queue + 1\<rparr>"
    by (auto simp: store_cmd_def split: if_splits)
  have "unat (numEntries queue) < 65535"
    using lt assms(2) unat_u16_lt [of "capacity queue"] by simp
  then have suc: "unat (numEntries queue + 1) = Suc (unat (numEntries queue))"
    by (simp add: unat_word_ariths)
  show ?thesis
    using lt suc by (simp add: q' queued_def take_Suc_conv_app_nth)
qed

lemma grow_queued:
  assumes "RecompQueue_Grow ok queue = Some (True, grown)" and "queue_inv queue"
  shows "queued grown = queued queue \<and> numEntries grown = numEntries queue
         \<and> length (entries grown) = unat (capacity grown) \<and> unat (capacity queue) \<le> unat (capacity grown)"
  using assms
  by (auto simp: RecompQueue_Grow_def Let_def queue_inv_def queued_def split: if_splits)

lemma push_queued:
  assumes "RecompQueue_Push ok queue opc a0 a1 p = Some (True, queue')" and "queue_inv queue"
  shows "queued queue' = queued queue @ [\<lparr>op = opc, arg0 = a0, arg1 = a1, asPtr = p\<rparr>]
         \<and> queue_inv queue'"
proof (cases "unat (numEntries queue) \<ge> unat (capacity queue)")
  case True
  with assms obtain grown where g: "RecompQueue_Grow ok queue = Some (True, grown)"
    and s: "store_cmd grown \<lparr>op = opc, arg0 = a0, arg1 = a1, asPtr = p\<rparr> = Some queue'"
    by (auto simp: RecompQueue_Push_def Let_def split: option.splits bool.splits)
  from grow_queued [OF g assms(2)] store_cmd_queued [OF s] show ?thesis
    by (auto simp: queue_inv_def store_cmd_def split: if_splits)
next
  case False
  with assms have s: "store_cmd queue \<lparr>op = opc, arg0 = a0, arg1 = a1, asPtr = p\<rparr> = Some queue'"
    by (auto simp: RecompQueue_Push_def Let_def)
  from store_cmd_queued [OF s] assms(2) False show ?thesis
    by (auto simp: queue_inv_def)
qed

lemma drain_loop_run:
  assumes "\<And>c w w'. P w \<Longrightarrow> f c w = Some w' \<Longrightarrow> P w' \<and> getq w' = getq w"
    and "P w" and "getq w = Some queue" and "unat (numEntries queue) \<le> length (entries queue)"
  shows "drain_loop getq f i w = run_cmds f (drop i (queued queue)) w"
  using assms(2,3)
proof (induction "unat (numEntries queue) - i" arbitrary: i w)
  case 0
  then show ?case by (simp add: queued_def drain_loop.simps [of getq f i w])
next
  case (Suc n)
  then have lt: "i < unat (numEntries queue)" by simp
  with assms(4) have lt': "i < length (entries queue)" by simp
  have d: "drop i (queued queue) = entries queue ! i # drop (Suc i) (queued queue)"
    using lt lt' by (simp add: queued_def Cons_nth_drop_Suc [symmetric])
  show ?case
  proof (cases "f (entries queue ! i) w")
    case None
    then show ?thesis using lt lt' Suc.prems d by (simp add: drain_loop.simps [of getq f i w])
  next
    case (Some w')
    from assms(1) [OF Suc.prems(1) Some] Suc.prems have "P w'" "getq w' = Some queue" by simp_all
    moreover have "n = unat (numEntries queue) - Suc i" using Suc.hyps(2) by simp
    ultimately have "drain_loop getq f (Suc i) w' = run_cmds f (drop (Suc i) (queued queue)) w'"
      using Suc.hyps(1) by blast
    then show ?thesis using lt lt' Suc.prems d Some by (simp add: drain_loop.simps [of getq f i w])
  qed
qed

lemma run_cmds_record: "run_cmds record_cmd cs (q, tr) = Some (q, tr @ cs)"
  by (induction cs arbitrary: tr) (simp_all add: record_cmd_def)

lemma double_capacity:
  assumes "unat (c :: u16) < 32768"
  shows "unat (push_bit 1 c :: u16) = 2 * unat c"
proof -
  have "push_bit 1 c = c * 2" by (simp add: push_bit_eq_mult)
  then have "unat (push_bit 1 c :: u16) = (unat c * unat (2 :: u16)) mod 2 ^ 16"
    by (simp only: unat_word_ariths(2)) simp
  also have "\<dots> = 2 * unat c" using assms by simp
  finally show ?thesis .
qed

lemma push_accepts:
  assumes inv: "queue_inv queue" and room: "push_possible queue ok"
  shows "\<exists>queue'. RecompQueue_Push ok queue opc a0 a1 p = Some (True, queue')"
proof (cases "unat (numEntries queue) < unat (capacity queue)")
  case True
  with inv show ?thesis
    by (simp add: RecompQueue_Push_def store_cmd_def queue_inv_def Let_def)
next
  case False
  with room have ok: ok and c: "0 < unat (capacity queue)" "unat (capacity queue) < 32768"
    by (simp_all add: push_possible_def)
  from inv False have n: "unat (numEntries queue) = unat (capacity queue)"
    and len: "length (entries queue) = unat (capacity queue)"
    by (simp_all add: queue_inv_def)
  have d: "unat (push_bit 1 (capacity queue) :: u16) = 2 * unat (capacity queue)"
    by (rule double_capacity [OF c(2)])
  show ?thesis
    using ok c n len d False
    by (simp add: RecompQueue_Push_def RecompQueue_Grow_def store_cmd_def Let_def)
qed

text \<open>
  Claim C3 (as amended).  Take a well-formed queue in which no queued command has the triple
  \<open>(op, arg0, arg1)\<close>, and in which a slot is free or the growth can succeed.  Then
  \<open>RecompQueue_PushIfNotQueued\<close> accepts the call (it returns true) and appends the
  command behind the commands already queued, which stay as they are and in their order.
  A second call with the same triple is discarded and leaves the queue as it is, whatever
  its payload and whatever the allocator would answer; exactly one queued command has the
  triple and it carries the payload of the accepted call.  A drain hands every queued
  command to the callback once, oldest first (the commands queued before, then the accepted
  one), and then sets the count to zero and keeps the capacity.
\<close>

theorem push_if_not_queued_first_wins:
  assumes "queue_inv queue"
    and "filter (cmd_matches opc a0 a1) (queued queue) = []"
    and "push_possible queue ok1"
  shows "\<exists>queue1.
         RecompQueue_PushIfNotQueued ok1 queue opc a0 a1 payloadA = Some (True, queue1)
       \<and> queue_inv queue1
       \<and> queued queue1 = queued queue @ [\<lparr>op = opc, arg0 = a0, arg1 = a1, asPtr = payloadA\<rparr>]
       \<and> RecompQueue_PushIfNotQueued ok2 queue1 opc a0 a1 payloadB = Some (False, queue1)
       \<and> filter (cmd_matches opc a0 a1) (queued queue1)
           = [\<lparr>op = opc, arg0 = a0, arg1 = a1, asPtr = payloadA\<rparr>]
       \<and> RecompQueue_Drain (\<lambda>w. Some (fst w)) (\<lambda>q w. (q, snd w)) record_cmd (queue1, [])
           = Some (queue1\<lparr>numEntries := 0\<rparr>,
                   queued queue @ [\<lparr>op = opc, arg0 = a0, arg1 = a1, asPtr = payloadA\<rparr>])
       \<and> queued (queue1\<lparr>numEntries := 0\<rparr>) = []
       \<and> capacity (queue1\<lparr>numEntries := 0\<rparr>) = capacity queue1"
proof -
  let ?c = "\<lparr>op = opc, arg0 = a0, arg1 = a1, asPtr = payloadA\<rparr>"
  from assms(1) have le: "unat (numEntries queue) \<le> length (entries queue)"
    by (simp add: queue_inv_def)
  from assms(2) have nq: "scan_not_queued (queued queue) opc a0 a1"
    by (simp add: scan_not_queued_filter)
  from push_accepts [OF assms(1,3)] obtain queue1 where
    push: "RecompQueue_Push ok1 queue opc a0 a1 payloadA = Some (True, queue1)" by blast
  with nq le have first: "RecompQueue_PushIfNotQueued ok1 queue opc a0 a1 payloadA
      = Some (True, queue1)"
    by (simp add: RecompQueue_PushIfNotQueued_def RecompQueue_IsCmdNotQueued_def)
  from push_queued [OF push assms(1)] have q1: "queued queue1 = queued queue @ [?c]"
    and inv1: "queue_inv queue1" by simp_all
  from inv1 have le1: "unat (numEntries queue1) \<le> length (entries queue1)"
    by (simp add: queue_inv_def)
  have m: "cmd_matches opc a0 a1 ?c" by (simp add: cmd_matches_def)
  have f1: "filter (cmd_matches opc a0 a1) (queued queue1) = [?c]"
    using assms(2) m by (simp add: q1)
  then have "\<not> scan_not_queued (queued queue1) opc a0 a1"
    by (simp add: scan_not_queued_filter)
  then have second: "RecompQueue_PushIfNotQueued ok2 queue1 opc a0 a1 payloadB = Some (False, queue1)"
    using le1 by (simp add: RecompQueue_PushIfNotQueued_def RecompQueue_IsCmdNotQueued_def)
  have "drain_loop (\<lambda>w. Some (fst w)) record_cmd 0 (queue1, [])
          = run_cmds record_cmd (drop 0 (queued queue1)) (queue1, [])"
    by (rule drain_loop_run [where P = "\<lambda>w. True"]) (auto simp: record_cmd_def le1)
  then have "drain_loop (\<lambda>w. Some (fst w)) record_cmd 0 (queue1, []) = Some (queue1, queued queue1)"
    by (simp add: run_cmds_record)
  then have dr: "RecompQueue_Drain (\<lambda>w. Some (fst w)) (\<lambda>q w. (q, snd w)) record_cmd (queue1, [])
           = Some (queue1\<lparr>numEntries := 0\<rparr>, queued queue @ [?c])"
    by (simp add: RecompQueue_Drain_def q1)
  have e: "queued (queue1\<lparr>numEntries := 0\<rparr>) = []" by (simp add: queued_def)
  show ?thesis using first inv1 q1 second f1 dr e by simp
qed

theorem push_if_not_queued_first_wins_witness:
  "queue_inv fresh_queue
   \<and> queued fresh_queue = []
   \<and> RecompQueue_PushIfNotQueued True fresh_queue 0 1 2 10 = Some (True, first_pushed)
   \<and> queued first_pushed = [\<lparr>op = 0, arg0 = 1, arg1 = 2, asPtr = 10\<rparr>]
   \<and> RecompQueue_PushIfNotQueued False first_pushed 0 1 2 11 = Some (False, first_pushed)
   \<and> filter (cmd_matches 0 1 2) (queued first_pushed)
       = [\<lparr>op = 0, arg0 = 1, arg1 = 2, asPtr = 10\<rparr>]
   \<and> RecompQueue_Drain (\<lambda>w. Some (fst w)) (\<lambda>q w. (q, snd w)) record_cmd (first_pushed, [])
       = Some (first_pushed\<lparr>numEntries := 0\<rparr>, [\<lparr>op = 0, arg0 = 1, arg1 = 2, asPtr = 10\<rparr>])"
proof -
  have h1: "queue_inv fresh_queue"
    by (simp add: queue_inv_def fresh_queue_def)
  have q0: "queued fresh_queue = []" by (simp add: queued_def fresh_queue_def)
  have h3: "push_possible fresh_queue True" by (simp add: push_possible_def fresh_queue_def)
  have r: "replicate 16 zero_cmd = zero_cmd # replicate 15 zero_cmd"
    by (simp add: numeral_eq_Suc)
  have h2: "RecompQueue_PushIfNotQueued True fresh_queue 0 1 2 10 = Some (True, first_pushed)"
    by (simp add: RecompQueue_PushIfNotQueued_def RecompQueue_IsCmdNotQueued_def
        RecompQueue_Push_def store_cmd_def fresh_queue_def first_pushed_def queued_def
        Let_def r)
  from push_if_not_queued_first_wins [OF h1 _ h3, of 0 1 2 10 False 11] q0 h2
  show ?thesis using h1 by (auto simp: cmd_matches_def)
qed

text \<open>
  The claim C3 as first stated speaks of every queue state.  In a queue that already holds a
  command with the triple, both calls of the pair are discarded, and the one queued command
  with the triple carries the payload registered before them (7), not that of the pair's
  first call (8).
\<close>

theorem push_if_not_queued_counterexample:
  "queue_inv one_queued
   \<and> RecompQueue_PushIfNotQueued True one_queued 0 1 2 8 = Some (False, one_queued)
   \<and> RecompQueue_PushIfNotQueued True one_queued 0 1 2 9 = Some (False, one_queued)
   \<and> filter (cmd_matches 0 1 2) (queued one_queued)
       = [\<lparr>op = 0, arg0 = 1, arg1 = 2, asPtr = 7\<rparr>]
   \<and> filter (cmd_matches 0 1 2) (queued one_queued)
       \<noteq> [\<lparr>op = 0, arg0 = 1, arg1 = 2, asPtr = 8\<rparr>]"
  by (simp add: RecompQueue_PushIfNotQueued_def RecompQueue_IsCmdNotQueued_def
      one_queued_def queued_def cmd_matches_def queue_inv_def)

section \<open>Results on the load status and the caches\<close>

lemma ucast_u8_u32_inj: "(ucast (x :: u8) :: u32) = ucast y \<Longrightarrow> x = y"
proof -
  assume "(ucast x :: u32) = ucast y"
  then have "(ucast (ucast x :: u32) :: u8) = ucast (ucast y :: u32)" by simp
  then show "x = y" by (simp add: ucast_up_ucast_id is_up)
qed

lemma ucast_status_eq5: "(ucast (x :: u8) :: u32) = 5 \<longleftrightarrow> x = 5"
  using ucast_u8_u32_inj [of x 5] by auto

lemma ucast_status_eq0: "(ucast (x :: u8) :: u32) = 0 \<longleftrightarrow> x = 0"
  using ucast_u8_u32_inj [of x 0] by auto

lemma table_kinds_distinct: "SEQUENCE_TABLE \<noteq> FONT_TABLE"
  by (simp add: SEQUENCE_TABLE_def FONT_TABLE_def)

lemma get_status_cases:
  assumes "tableType = SEQUENCE_TABLE \<or> tableType = FONT_TABLE"
  shows "AudioApi_GetTableEntryLoadStatus realIndex s tableType ident =
     (if is_sentinel_id ident then Some LOAD_STATUS_PERMANENT
      else if unat (realIndex tableType ident) < length (status_array s tableType)
      then Some (ucast (status_array s tableType ! unat (realIndex tableType ident)))
      else None)"
  using assms table_kinds_distinct
  by (auto simp: AudioApi_GetTableEntryLoadStatus_def status_array_def is_sentinel_id_def Let_def)

lemma set_status_cases:
  assumes "tableType = SEQUENCE_TABLE \<or> tableType = FONT_TABLE"
    and "AudioApi_SetTableEntryLoadStatus realIndex s tableType ident status = Some s'"
  shows "same_but_status s s'
     \<and> (\<forall>other. other \<noteq> tableType \<and> (other = SEQUENCE_TABLE \<or> other = FONT_TABLE)
           \<longrightarrow> status_array s' other = status_array s other)
     \<and> (if is_sentinel_id ident then status_array s' tableType = status_array s tableType
         else unat (realIndex tableType ident) < length (status_array s tableType)
              \<and> status_array s' tableType =
                  (status_array s tableType)[unat (realIndex tableType ident) := ucast status])"
  using assms table_kinds_distinct
  by (auto simp: AudioApi_SetTableEntryLoadStatus_def status_array_def is_sentinel_id_def Let_def
        same_but_status_def split: if_splits)

lemma touched_step:
  assumes "i < n"
  shows "touched realIndex tableType i n =
     (if is_sentinel_id (word_of_int i) then {} else {unat (realIndex tableType (word_of_int i))})
       \<union> touched realIndex tableType (i + 1) n"
proof -
  have "{j. i \<le> j \<and> j < n \<and> \<not> is_sentinel_id (word_of_int j :: u32)}
          = (if is_sentinel_id (word_of_int i :: u32) then {} else {i})
            \<union> {j. i + 1 \<le> j \<and> j < n \<and> \<not> is_sentinel_id (word_of_int j :: u32)}"
    using assms by (auto simp: order_le_less)
  then show ?thesis
    by (simp add: touched_def image_Un)
qed

lemma reset_loop_effect:
  assumes "reset_loop realIndex tableType n i s = Some s'"
    and "tableType = SEQUENCE_TABLE \<or> tableType = FONT_TABLE"
  shows "same_but_status s s'
     \<and> (\<forall>other. other \<noteq> tableType \<and> (other = SEQUENCE_TABLE \<or> other = FONT_TABLE)
           \<longrightarrow> status_array s' other = status_array s other)
     \<and> length (status_array s' tableType) = length (status_array s tableType)
     \<and> (\<forall>k \<in> touched realIndex tableType i n. k < length (status_array s tableType))
     \<and> (\<forall>k < length (status_array s tableType).
           status_array s' tableType ! k =
             (if status_array s tableType ! k = 5 then 5
              else if k \<in> touched realIndex tableType i n then 0
              else status_array s tableType ! k))"
  using assms
proof (induction realIndex tableType n i s rule: reset_loop.induct)
  case (1 realIndex tableType n i s)
  let ?A = "status_array s tableType"
  let ?id = "word_of_int i :: u32"
  let ?r = "unat (realIndex tableType ?id)"
  show ?case
  proof (cases "i < n")
    case False
    with "1.prems" have "s' = s" by (simp add: reset_loop.simps [of realIndex tableType n i s])
    moreover have "touched realIndex tableType i n = {}"
      using False by (auto simp: touched_def)
    ultimately show ?thesis by (simp add: same_but_status_def)
  next
    case True
    note ts = touched_step [OF True, of realIndex tableType]
    show ?thesis
    proof (cases "is_sentinel_id ?id")
      case sent: True
      then have g: "AudioApi_GetTableEntryLoadStatus realIndex s tableType ?id = Some LOAD_STATUS_PERMANENT"
        using get_status_cases [OF "1.prems"(2)] by simp
      with True "1.prems"(1) have rec: "reset_loop realIndex tableType n (i + 1) s = Some s'"
        by (simp add: reset_loop.simps [of realIndex tableType n i s])
      from "1.IH"(2) [OF True g _ rec "1.prems"(2)] show ?thesis
        using ts sent by simp
    next
      case nsent: False
      from True "1.prems"(1) obtain status where
        g: "AudioApi_GetTableEntryLoadStatus realIndex s tableType ?id = Some status"
        by (auto simp: reset_loop.simps [of realIndex tableType n i s] split: option.splits)
      with nsent get_status_cases [OF "1.prems"(2), of realIndex s ?id]
      have rlt: "?r < length ?A" and st: "status = ucast (?A ! ?r)"
        by (auto split: if_splits)
      show ?thesis
      proof (cases "?A ! ?r = 5")
        case perm: True
        then have "status = LOAD_STATUS_PERMANENT"
          using st by (simp add: LOAD_STATUS_PERMANENT_def)
        with True "1.prems"(1) g have rec: "reset_loop realIndex tableType n (i + 1) s = Some s'"
          by (simp add: reset_loop.simps [of realIndex tableType n i s])
        from "1.IH"(2) [OF True g _ rec "1.prems"(2)] \<open>status = LOAD_STATUS_PERMANENT\<close>
        have ih: "same_but_status s s'"
          "\<forall>other. other \<noteq> tableType \<and> (other = SEQUENCE_TABLE \<or> other = FONT_TABLE)
             \<longrightarrow> status_array s' other = status_array s other"
          "length (status_array s' tableType) = length ?A"
          "\<forall>k \<in> touched realIndex tableType (i + 1) n. k < length ?A"
          "\<forall>k < length ?A. status_array s' tableType ! k =
             (if ?A ! k = 5 then 5
              else if k \<in> touched realIndex tableType (i + 1) n then 0 else ?A ! k)"
          by simp_all
        show ?thesis
          using ih rlt perm nsent by (auto simp: ts)
      next
        case nperm: False
        then have ne: "status \<noteq> LOAD_STATUS_PERMANENT"
          using st by (simp add: LOAD_STATUS_PERMANENT_def ucast_status_eq5)
        with True "1.prems"(1) g obtain s1 where
          set: "AudioApi_SetTableEntryLoadStatus realIndex s tableType ?id LOAD_STATUS_NOT_LOADED = Some s1"
          and rec: "reset_loop realIndex tableType n (i + 1) s1 = Some s'"
          by (auto simp: reset_loop.simps [of realIndex tableType n i s] split: option.splits)
        from set_status_cases [OF "1.prems"(2) set] nsent
        have s1: "same_but_status s s1"
          "\<forall>other. other \<noteq> tableType \<and> (other = SEQUENCE_TABLE \<or> other = FONT_TABLE)
             \<longrightarrow> status_array s1 other = status_array s other"
          "status_array s1 tableType = ?A[?r := 0]"
          by (simp_all add: LOAD_STATUS_NOT_LOADED_def)
        from "1.IH"(1) [OF True g ne set rec "1.prems"(2)]
        have ih: "same_but_status s1 s'"
          "\<forall>other. other \<noteq> tableType \<and> (other = SEQUENCE_TABLE \<or> other = FONT_TABLE)
             \<longrightarrow> status_array s' other = status_array s1 other"
          "length (status_array s' tableType) = length (status_array s1 tableType)"
          "\<forall>k \<in> touched realIndex tableType (i + 1) n. k < length (status_array s1 tableType)"
          "\<forall>k < length (status_array s1 tableType). status_array s' tableType ! k =
             (if status_array s1 tableType ! k = 5 then 5
              else if k \<in> touched realIndex tableType (i + 1) n then 0
              else status_array s1 tableType ! k)"
          by simp_all
        have a: "same_but_status s s'"
          using s1(1) ih(1) by (simp add: same_but_status_def)
        have b: "\<forall>other. other \<noteq> tableType \<and> (other = SEQUENCE_TABLE \<or> other = FONT_TABLE)
             \<longrightarrow> status_array s' other = status_array s other"
          using s1(2) ih(2) by simp
        have c: "length (status_array s' tableType) = length ?A"
          using ih(3) s1(3) by simp
        have d: "\<forall>k \<in> touched realIndex tableType i n. k < length ?A"
          using ih(4) s1(3) rlt nsent by (auto simp: ts)
        have e: "\<forall>k < length ?A. status_array s' tableType ! k =
             (if ?A ! k = 5 then 5
              else if k \<in> touched realIndex tableType i n then 0 else ?A ! k)"
        proof (intro allI impI)
          fix k assume k: "k < length ?A"
          then have k1: "k < length (status_array s1 tableType)" using s1(3) by simp
          show "status_array s' tableType ! k =
             (if ?A ! k = 5 then 5
              else if k \<in> touched realIndex tableType i n then 0 else ?A ! k)"
          proof (cases "k = ?r")
            case True
            then show ?thesis
              using ih(5) k1 s1(3) k nperm nsent by (auto simp: ts)
          next
            case False
            then show ?thesis
              using ih(5) k1 s1(3) k nsent by (auto simp: ts)
          qed
        qed
        show ?thesis using a b c d e by blast
      qed
    qed
  qed
qed

lemma get_status_other:
  assumes "tableType \<noteq> SEQUENCE_TABLE" and "tableType \<noteq> FONT_TABLE"
  shows "AudioApi_GetTableEntryLoadStatus realIndex s tableType ident =
     Some (if is_sentinel_id ident then LOAD_STATUS_PERMANENT else LOAD_STATUS_NOT_LOADED)"
  using assms
  by (simp add: AudioApi_GetTableEntryLoadStatus_def is_sentinel_id_def Let_def)

lemma status_consts_distinct: "LOAD_STATUS_PERMANENT \<noteq> LOAD_STATUS_NOT_LOADED"
  by (simp add: LOAD_STATUS_PERMANENT_def LOAD_STATUS_NOT_LOADED_def)

lemma get_after_reset_loop:
  assumes loop: "reset_loop realIndex tableType n 0 s = Some s'"
    and kind: "tableType = SEQUENCE_TABLE \<or> tableType = FONT_TABLE"
    and i: "0 \<le> i" "i < n"
  shows "AudioApi_GetTableEntryLoadStatus realIndex s' tableType (word_of_int i) =
     Some (if AudioApi_GetTableEntryLoadStatus realIndex s tableType (word_of_int i)
                = Some LOAD_STATUS_PERMANENT
           then LOAD_STATUS_PERMANENT else LOAD_STATUS_NOT_LOADED)"
proof (cases "is_sentinel_id (word_of_int i :: u32)")
  case True
  then show ?thesis by (simp add: get_status_cases [OF kind])
next
  case False
  let ?r = "unat (realIndex tableType (word_of_int i))"
  note eff = reset_loop_effect [OF loop kind]
  have mem: "?r \<in> touched realIndex tableType 0 n"
    using i False by (auto simp: touched_def)
  with eff have lt: "?r < length (status_array s tableType)" by blast
  with eff have v: "status_array s' tableType ! ?r =
      (if status_array s tableType ! ?r = 5 then 5 else 0)"
    using mem by simp
  from eff lt have lt': "?r < length (status_array s' tableType)" by simp
  show ?thesis
    using False lt lt' v
    by (simp add: get_status_cases [OF kind] LOAD_STATUS_PERMANENT_def
        LOAD_STATUS_NOT_LOADED_def ucast_status_eq5)
qed

lemma get_frame:
  assumes "status_array s' tableType = status_array s tableType"
    and "tableType = SEQUENCE_TABLE \<or> tableType = FONT_TABLE"
  shows "AudioApi_GetTableEntryLoadStatus realIndex s' tableType ident
       = AudioApi_GetTableEntryLoadStatus realIndex s tableType ident"
  using assms by (simp add: get_status_cases)

lemma reset_load_status_effect:
  assumes "AudioHeap_ResetLoadStatus realIndex s = Some s'"
  shows "pc_numEntries (persistentCache s') = 0 \<and> pstack s' = []
     \<and> (\<forall>tableType i.
           (tableType = SEQUENCE_TABLE \<longrightarrow> 0 \<le> i \<and> i < header_numEntries (sequenceTable s))
           \<and> (tableType = FONT_TABLE \<longrightarrow> 0 \<le> i \<and> i < header_numEntries (soundFontTable s))
           \<longrightarrow> AudioApi_GetTableEntryLoadStatus realIndex s' tableType (word_of_int i) =
                 Some (if AudioApi_GetTableEntryLoadStatus realIndex s tableType (word_of_int i)
                            = Some LOAD_STATUS_PERMANENT
                       then LOAD_STATUS_PERMANENT else LOAD_STATUS_NOT_LOADED))
     \<and> length (sExtSeqLoadStatus s') = length (sExtSeqLoadStatus s)
     \<and> length (sExtSoundFontLoadStatus s') = length (sExtSoundFontLoadStatus s)
     \<and> (\<forall>k < length (sExtSeqLoadStatus s).
           sExtSeqLoadStatus s ! k = 5 \<longrightarrow> sExtSeqLoadStatus s' ! k = 5)
     \<and> (\<forall>k < length (sExtSoundFontLoadStatus s).
           sExtSoundFontLoadStatus s ! k = 5 \<longrightarrow> sExtSoundFontLoadStatus s' ! k = 5)
     \<and> permanentCache s' = permanentCache s \<and> loadedCache s' = loadedCache s"
proof -
  let ?s0 = "s\<lparr>persistentCache := (persistentCache s)\<lparr>pc_numEntries := 0\<rparr>\<rparr>"
  from assms obtain s1 where
    l1: "reset_loop realIndex FONT_TABLE (header_numEntries (soundFontTable s)) 0 ?s0 = Some s1"
    and l2: "reset_loop realIndex SEQUENCE_TABLE (header_numEntries (sequenceTable s1)) 0 s1 = Some s'"
    by (auto simp: AudioHeap_ResetLoadStatus_def Let_def split: option.splits)
  note e1 = reset_loop_effect [OF l1] and e2 = reset_loop_effect [OF l2]
  have sq: "sequenceTable s1 = sequenceTable s"
    using e1 by (simp add: same_but_status_def)
  have a0: "status_array ?s0 FONT_TABLE = status_array s FONT_TABLE"
    "status_array ?s0 SEQUENCE_TABLE = status_array s SEQUENCE_TABLE"
    by (simp_all add: status_array_def)
  have seq1: "status_array s1 SEQUENCE_TABLE = status_array s SEQUENCE_TABLE"
    using e1 a0 table_kinds_distinct by simp
  have font2: "status_array s' FONT_TABLE = status_array s1 FONT_TABLE"
    using e2 table_kinds_distinct by simp
  have pc: "persistentCache s' = (persistentCache s)\<lparr>pc_numEntries := 0\<rparr>"
    using e1 e2 by (simp add: same_but_status_def)
  have c1: "pc_numEntries (persistentCache s') = 0 \<and> pstack s' = []"
    by (simp add: pc pstack_def)
  have c2: "AudioApi_GetTableEntryLoadStatus realIndex s' tableType (word_of_int i) =
                 Some (if AudioApi_GetTableEntryLoadStatus realIndex s tableType (word_of_int i)
                            = Some LOAD_STATUS_PERMANENT
                       then LOAD_STATUS_PERMANENT else LOAD_STATUS_NOT_LOADED)"
    if h: "(tableType = SEQUENCE_TABLE \<longrightarrow> 0 \<le> i \<and> i < header_numEntries (sequenceTable s))
           \<and> (tableType = FONT_TABLE \<longrightarrow> 0 \<le> i \<and> i < header_numEntries (soundFontTable s))"
    for tableType i
  proof -
    consider (seq) "tableType = SEQUENCE_TABLE" | (font) "tableType = FONT_TABLE"
      | (other) "tableType \<noteq> SEQUENCE_TABLE" "tableType \<noteq> FONT_TABLE" by blast
    then show ?thesis
    proof cases
      case seq
      with h sq have i: "0 \<le> i" "i < header_numEntries (sequenceTable s1)" by simp_all
      have "AudioApi_GetTableEntryLoadStatus realIndex s1 SEQUENCE_TABLE (word_of_int i)
          = AudioApi_GetTableEntryLoadStatus realIndex s SEQUENCE_TABLE (word_of_int i)"
        by (rule get_frame) (simp_all add: seq1)
      with get_after_reset_loop [OF l2 _ i] seq show ?thesis by simp
    next
      case font
      with h have i: "0 \<le> i" "i < header_numEntries (soundFontTable s)" by simp_all
      have f0: "AudioApi_GetTableEntryLoadStatus realIndex ?s0 FONT_TABLE (word_of_int i)
          = AudioApi_GetTableEntryLoadStatus realIndex s FONT_TABLE (word_of_int i)"
        by (rule get_frame) (simp_all add: a0)
      have f2: "AudioApi_GetTableEntryLoadStatus realIndex s' FONT_TABLE (word_of_int i)
          = AudioApi_GetTableEntryLoadStatus realIndex s1 FONT_TABLE (word_of_int i)"
        by (rule get_frame) (simp_all add: font2)
      from get_after_reset_loop [OF l1 _ i] f0 f2 font show ?thesis by simp
    next
      case other
      then show ?thesis
        by (simp add: get_status_other status_consts_distinct)
    qed
  qed
  have sA: "sExtSeqLoadStatus x = status_array x SEQUENCE_TABLE"
    and fA: "sExtSoundFontLoadStatus x = status_array x FONT_TABLE" for x
    using table_kinds_distinct by (simp_all add: status_array_def)
  have c3: "length (sExtSeqLoadStatus s') = length (sExtSeqLoadStatus s)"
    using e2 seq1 by (simp add: sA)
  have c4: "length (sExtSoundFontLoadStatus s') = length (sExtSoundFontLoadStatus s)"
    using e1 font2 a0 by (simp add: fA)
  have e2v: "\<forall>k < length (status_array s1 SEQUENCE_TABLE).
           status_array s' SEQUENCE_TABLE ! k =
             (if status_array s1 SEQUENCE_TABLE ! k = 5 then 5
              else if k \<in> touched realIndex SEQUENCE_TABLE 0 (header_numEntries (sequenceTable s1)) then 0
              else status_array s1 SEQUENCE_TABLE ! k)"
    using e2 by blast
  have e1v: "\<forall>k < length (status_array ?s0 FONT_TABLE).
           status_array s1 FONT_TABLE ! k =
             (if status_array ?s0 FONT_TABLE ! k = 5 then 5
              else if k \<in> touched realIndex FONT_TABLE 0 (header_numEntries (soundFontTable s)) then 0
              else status_array ?s0 FONT_TABLE ! k)"
    using e1 by simp
  have c5: "\<forall>k < length (sExtSeqLoadStatus s).
           sExtSeqLoadStatus s ! k = 5 \<longrightarrow> sExtSeqLoadStatus s' ! k = 5"
    using e2v by (simp add: sA seq1)
  have c6: "\<forall>k < length (sExtSoundFontLoadStatus s).
           sExtSoundFontLoadStatus s ! k = 5 \<longrightarrow> sExtSoundFontLoadStatus s' ! k = 5"
    using e1v by (simp add: fA font2 a0)
  have c7: "permanentCache s' = permanentCache s \<and> loadedCache s' = loadedCache s"
    using e1 e2 by (simp add: same_but_status_def)
  from c2 have c2': "\<forall>tableType i.
           (tableType = SEQUENCE_TABLE \<longrightarrow> 0 \<le> i \<and> i < header_numEntries (sequenceTable s))
           \<and> (tableType = FONT_TABLE \<longrightarrow> 0 \<le> i \<and> i < header_numEntries (soundFontTable s))
           \<longrightarrow> AudioApi_GetTableEntryLoadStatus realIndex s' tableType (word_of_int i) =
                 Some (if AudioApi_GetTableEntryLoadStatus realIndex s tableType (word_of_int i)
                            = Some LOAD_STATUS_PERMANENT
                       then LOAD_STATUS_PERMANENT else LOAD_STATUS_NOT_LOADED)"
    by blast
  show ?thesis
    apply (intro conjI)
    using c1 apply simp
    using c1 apply simp
    using c2' apply assumption
    using c3 apply assumption
    using c4 apply assumption
    using c5 apply assumption
    using c6 apply assumption
    using c7 apply simp
    using c7 apply simp
    done
qed

lemma reset_example_run:
  "AudioHeap_ResetLoadStatus identity_index reset_example = Some reset_example_after"
  by (simp add: AudioHeap_ResetLoadStatus_def reset_example_def reset_example_after_def empty_table_def
      identity_index_def AudioApi_GetTableEntryLoadStatus_def AudioApi_SetTableEntryLoadStatus_def
      SEQUENCE_TABLE_def FONT_TABLE_def LOAD_STATUS_PERMANENT_def LOAD_STATUS_NOT_LOADED_def Let_def
      reset_loop.simps)

lemma set_status_total:
  assumes "status_slot_ok realIndex s tableType ident"
  shows "\<exists>s2. AudioApi_SetTableEntryLoadStatus realIndex s tableType ident status = Some s2"
  using assms
  by (auto simp: status_slot_ok_def AudioApi_SetTableEntryLoadStatus_def is_sentinel_id_def
      Let_def)

lemma slot_ok_arrays:
  assumes "sExtSeqLoadStatus s' = sExtSeqLoadStatus s"
    and "sExtSoundFontLoadStatus s' = sExtSoundFontLoadStatus s"
  shows "status_slot_ok realIndex s' tableType ident = status_slot_ok realIndex s tableType ident"
  using assms by (simp add: status_slot_ok_def)

lemma touched_slot_ok:
  assumes "tableType = SEQUENCE_TABLE \<or> tableType = FONT_TABLE"
    and "\<forall>j. i \<le> j \<and> j < n \<longrightarrow> status_slot_ok realIndex s tableType (word_of_int j)"
  shows "\<forall>k \<in> touched realIndex tableType i n. k < length (status_array s tableType)"
  using assms table_kinds_distinct
  by (auto simp: touched_def status_slot_ok_def status_array_def)

lemma reset_loop_total:
  assumes "tableType = SEQUENCE_TABLE \<or> tableType = FONT_TABLE"
    and "\<forall>k \<in> touched realIndex tableType i n. k < length (status_array s tableType)"
  shows "\<exists>s'. reset_loop realIndex tableType n i s = Some s'"
  using assms
proof (induction realIndex tableType n i s rule: reset_loop.induct)
  case (1 realIndex tableType n i s)
  let ?A = "status_array s tableType"
  let ?id = "word_of_int i :: u32"
  let ?r = "unat (realIndex tableType ?id)"
  show ?case
  proof (cases "i < n")
    case False
    then show ?thesis by (simp add: reset_loop.simps [of realIndex tableType n i s])
  next
    case True
    note ts = touched_step [OF True, of realIndex tableType]
    have rest: "\<forall>k \<in> touched realIndex tableType (i + 1) n. k < length ?A"
      using "1.prems"(2) by (simp add: ts)
    show ?thesis
    proof (cases "is_sentinel_id ?id")
      case sent: True
      then have g: "AudioApi_GetTableEntryLoadStatus realIndex s tableType ?id
          = Some LOAD_STATUS_PERMANENT"
        using get_status_cases [OF "1.prems"(1)] by simp
      from "1.IH"(2) [OF True g _ "1.prems"(1) rest] obtain s' where
        "reset_loop realIndex tableType n (i + 1) s = Some s'" by auto
      with True g show ?thesis by (simp add: reset_loop.simps [of realIndex tableType n i s])
    next
      case nsent: False
      then have rlt: "?r < length ?A" using "1.prems"(2) by (simp add: ts)
      define status :: u32 where "status = ucast (?A ! ?r)"
      have g: "AudioApi_GetTableEntryLoadStatus realIndex s tableType ?id = Some status"
        using get_status_cases [OF "1.prems"(1), of realIndex s ?id] nsent rlt
        by (simp add: status_def)
      show ?thesis
      proof (cases "status = LOAD_STATUS_PERMANENT")
        case perm: True
        from "1.IH"(2) [OF True g _ "1.prems"(1) rest] perm obtain s' where
          "reset_loop realIndex tableType n (i + 1) s = Some s'" by auto
        with True g perm show ?thesis
          by (simp add: reset_loop.simps [of realIndex tableType n i s])
      next
        case nperm: False
        have "status_slot_ok realIndex s tableType ?id"
          using rlt "1.prems"(1) table_kinds_distinct
          by (auto simp: status_slot_ok_def status_array_def)
        from set_status_total [OF this] obtain s1 where
          set: "AudioApi_SetTableEntryLoadStatus realIndex s tableType ?id LOAD_STATUS_NOT_LOADED
                = Some s1" by blast
        from set_status_cases [OF "1.prems"(1) set] nsent
        have "length (status_array s1 tableType) = length ?A" by simp
        with rest have rest1: "\<forall>k \<in> touched realIndex tableType (i + 1) n.
            k < length (status_array s1 tableType)" by simp
        from "1.IH"(1) [OF True g nperm set "1.prems"(1) rest1] obtain s' where
          "reset_loop realIndex tableType n (i + 1) s1 = Some s'" by auto
        with True g nperm set show ?thesis
          by (simp add: reset_loop.simps [of realIndex tableType n i s])
      qed
    qed
  qed
qed

lemma reset_total:
  assumes "status_covered realIndex s"
  shows "\<exists>s'. AudioHeap_ResetLoadStatus realIndex s = Some s'"
proof -
  let ?s0 = "s\<lparr>persistentCache := (persistentCache s)\<lparr>pc_numEntries := 0\<rparr>\<rparr>"
  have a0: "status_array ?s0 FONT_TABLE = status_array s FONT_TABLE"
    by (simp add: status_array_def)
  have c1: "\<forall>k \<in> touched realIndex FONT_TABLE 0 (header_numEntries (soundFontTable s)).
      k < length (status_array s FONT_TABLE)"
    by (rule touched_slot_ok) (use assms in \<open>simp_all add: status_covered_def\<close>)
  have c2: "\<forall>k \<in> touched realIndex SEQUENCE_TABLE 0 (header_numEntries (sequenceTable s)).
      k < length (status_array s SEQUENCE_TABLE)"
    by (rule touched_slot_ok) (use assms in \<open>simp_all add: status_covered_def\<close>)
  from reset_loop_total [of FONT_TABLE realIndex 0 "header_numEntries (soundFontTable s)" ?s0]
    c1 a0
  obtain s1 where l1: "reset_loop realIndex FONT_TABLE (header_numEntries (soundFontTable s)) 0 ?s0
      = Some s1" by auto
  note e1 = reset_loop_effect [OF l1]
  have sq: "sequenceTable s1 = sequenceTable s"
    using e1 by (simp add: same_but_status_def)
  have "status_array s1 SEQUENCE_TABLE = status_array ?s0 SEQUENCE_TABLE"
    using e1 table_kinds_distinct by simp
  then have seq1: "status_array s1 SEQUENCE_TABLE = status_array s SEQUENCE_TABLE"
    by (simp add: status_array_def)
  from reset_loop_total [of SEQUENCE_TABLE realIndex 0 "header_numEntries (sequenceTable s1)" s1]
    c2 sq seq1
  obtain s' where l2: "reset_loop realIndex SEQUENCE_TABLE (header_numEntries (sequenceTable s1)) 0 s1
      = Some s'" by auto
  from l1 l2 show ?thesis by (simp add: AudioHeap_ResetLoadStatus_def Let_def)
qed

text \<open>
  Claim C8.  In a state whose status arrays cover every entry of the font table and of
  the sequence table, \<open>AudioHeap_ResetLoadStatus\<close> returns, and after it the persistent
  stack is empty and the load status of every entry of every table kind, as
  \<open>AudioApi_GetTableEntryLoadStatus\<close> reports it, is \<open>LOAD_STATUS_NOT_LOADED\<close>, unless it was
  \<open>LOAD_STATUS_PERMANENT\<close> before, in which case it still is.  No slot of the status arrays
  that held the permanent status is written, and the permanent and loaded sets are as
  before.
\<close>

theorem reset_load_status:
  assumes "status_covered realIndex s"
  shows "\<exists>s'. AudioHeap_ResetLoadStatus realIndex s = Some s'
     \<and> pc_numEntries (persistentCache s') = 0 \<and> pstack s' = []
     \<and> (\<forall>tableType i.
           (tableType = SEQUENCE_TABLE \<longrightarrow> 0 \<le> i \<and> i < header_numEntries (sequenceTable s))
           \<and> (tableType = FONT_TABLE \<longrightarrow> 0 \<le> i \<and> i < header_numEntries (soundFontTable s))
           \<longrightarrow> AudioApi_GetTableEntryLoadStatus realIndex s' tableType (word_of_int i) =
                 Some (if AudioApi_GetTableEntryLoadStatus realIndex s tableType (word_of_int i)
                            = Some LOAD_STATUS_PERMANENT
                       then LOAD_STATUS_PERMANENT else LOAD_STATUS_NOT_LOADED))
     \<and> length (sExtSeqLoadStatus s') = length (sExtSeqLoadStatus s)
     \<and> length (sExtSoundFontLoadStatus s') = length (sExtSoundFontLoadStatus s)
     \<and> (\<forall>k < length (sExtSeqLoadStatus s).
           sExtSeqLoadStatus s ! k = 5 \<longrightarrow> sExtSeqLoadStatus s' ! k = 5)
     \<and> (\<forall>k < length (sExtSoundFontLoadStatus s).
           sExtSoundFontLoadStatus s ! k = 5 \<longrightarrow> sExtSoundFontLoadStatus s' ! k = 5)
     \<and> permanentCache s' = permanentCache s \<and> loadedCache s' = loadedCache s"
proof -
  from reset_total [OF assms] obtain s' where
    r: "AudioHeap_ResetLoadStatus realIndex s = Some s'" by blast
  from reset_load_status_effect [OF r] r show ?thesis by blast
qed

lemma reset_example_covered: "status_covered identity_index reset_example"
  unfolding status_covered_def
proof (intro conjI allI impI)
  fix i :: int
  assume "0 \<le> i \<and> i < header_numEntries (soundFontTable reset_example)"
  then have "i = 0" by (simp add: reset_example_def empty_table_def)
  then show "status_slot_ok identity_index reset_example FONT_TABLE (word_of_int i)"
    using table_kinds_distinct
    by (simp add: status_slot_ok_def identity_index_def reset_example_def)
next
  fix i :: int
  assume "0 \<le> i \<and> i < header_numEntries (sequenceTable reset_example)"
  then have "i = 0 \<or> i = 1" by (simp add: reset_example_def empty_table_def) arith
  then show "status_slot_ok identity_index reset_example SEQUENCE_TABLE (word_of_int i)"
    using table_kinds_distinct
    by (auto simp: status_slot_ok_def identity_index_def reset_example_def)
qed

theorem reset_load_status_witness:
  "status_covered identity_index reset_example
   \<and> AudioHeap_ResetLoadStatus identity_index reset_example = Some reset_example_after
   \<and> sExtSeqLoadStatus reset_example = [5, 2]
   \<and> pc_numEntries (persistentCache reset_example) = 1
   \<and> pc_numEntries (persistentCache reset_example_after) = 0
   \<and> AudioApi_GetTableEntryLoadStatus identity_index reset_example_after SEQUENCE_TABLE 0
        = Some LOAD_STATUS_PERMANENT
   \<and> AudioApi_GetTableEntryLoadStatus identity_index reset_example_after SEQUENCE_TABLE 1
        = Some LOAD_STATUS_NOT_LOADED"
proof -
  have run: "AudioHeap_ResetLoadStatus identity_index reset_example = Some reset_example_after"
    by (fact reset_example_run)
  have g0: "AudioApi_GetTableEntryLoadStatus identity_index reset_example SEQUENCE_TABLE (word_of_int 0)
        = Some LOAD_STATUS_PERMANENT"
    by (simp add: AudioApi_GetTableEntryLoadStatus_def reset_example_def identity_index_def
        SEQUENCE_TABLE_def LOAD_STATUS_PERMANENT_def)
  have g1: "AudioApi_GetTableEntryLoadStatus identity_index reset_example SEQUENCE_TABLE (word_of_int 1)
        \<noteq> Some LOAD_STATUS_PERMANENT"
    by (simp add: AudioApi_GetTableEntryLoadStatus_def reset_example_def identity_index_def
        SEQUENCE_TABLE_def LOAD_STATUS_PERMANENT_def)
  have n: "header_numEntries (sequenceTable reset_example) = 2"
    by (simp add: reset_example_def empty_table_def)
  from reset_load_status [OF reset_example_covered] run have
    "\<forall>tableType i.
           (tableType = SEQUENCE_TABLE \<longrightarrow> 0 \<le> i \<and> i < header_numEntries (sequenceTable reset_example))
           \<and> (tableType = FONT_TABLE \<longrightarrow> 0 \<le> i \<and> i < header_numEntries (soundFontTable reset_example))
           \<longrightarrow> AudioApi_GetTableEntryLoadStatus identity_index reset_example_after tableType (word_of_int i) =
                 Some (if AudioApi_GetTableEntryLoadStatus identity_index reset_example tableType (word_of_int i)
                            = Some LOAD_STATUS_PERMANENT
                       then LOAD_STATUS_PERMANENT else LOAD_STATUS_NOT_LOADED)"
    and z: "pc_numEntries (persistentCache reset_example_after) = 0"
    by auto
  from this(1) [rule_format, of SEQUENCE_TABLE 0] this(1) [rule_format, of SEQUENCE_TABLE 1]
  have "AudioApi_GetTableEntryLoadStatus identity_index reset_example_after SEQUENCE_TABLE 0
        = Some LOAD_STATUS_PERMANENT"
    and "AudioApi_GetTableEntryLoadStatus identity_index reset_example_after SEQUENCE_TABLE 1
        = Some LOAD_STATUS_NOT_LOADED"
    using g0 g1 n table_kinds_distinct by simp_all
  then show ?thesis
    using run z reset_example_covered by (simp add: reset_example_def)
qed


lemma kseg0_not_null: "IS_KSEG0 a \<Longrightarrow> a \<noteq> 0"
  by (auto simp: IS_KSEG0_def)

text \<open>
  Claim C9.  For a key whose real index lies inside the table of its kind,
  \<open>AudioHeap_SearchCaches\<close> returns the entry's address exactly when the key is in the loaded
  set, and, if the permanent cache was asked for, in the permanent set, and the entry's
  \<open>romAddr\<close> is a memory (KSEG0) address; in every other case it returns NULL.  The
  returned address is never NULL.
\<close>

theorem search_caches_cached_iff:
  assumes "loadTable tableType = Some table"
    and "unat (realIndex tableType ident) < length (tbl_entries table)"
  shows "AudioHeap_SearchCaches realIndex loadTable s tableType cache ident =
     Some (if cache_key tableType (realIndex tableType ident) \<in> loadedCache s
              \<and> (cache = CACHE_PERMANENT
                   \<longrightarrow> cache_key tableType (realIndex tableType ident) \<in> permanentCache s)
              \<and> IS_KSEG0 (romAddr (tbl_entries table ! unat (realIndex tableType ident)))
           then romAddr (tbl_entries table ! unat (realIndex tableType ident)) else 0)
   \<and> (AudioHeap_SearchCaches realIndex loadTable s tableType cache ident \<noteq> Some 0
        \<longleftrightarrow> cache_key tableType (realIndex tableType ident) \<in> loadedCache s
              \<and> (cache = CACHE_PERMANENT
                   \<longrightarrow> cache_key tableType (realIndex tableType ident) \<in> permanentCache s)
              \<and> IS_KSEG0 (romAddr (tbl_entries table ! unat (realIndex tableType ident))))"
  using assms kseg0_not_null [of "romAddr (tbl_entries table ! unat (realIndex tableType ident))"]
  by (auto simp: AudioHeap_SearchCaches_def Let_def)

theorem search_caches_cached_iff_witness:
  "example_tables search_example SEQUENCE_TABLE = Some (sequenceTable search_example)
   \<and> unat (identity_index SEQUENCE_TABLE 0) < length (tbl_entries (sequenceTable search_example))
   \<and> AudioHeap_SearchCaches identity_index (example_tables search_example) search_example
        SEQUENCE_TABLE CACHE_EITHER 0 = Some 0x80200000
   \<and> AudioHeap_SearchCaches identity_index (example_tables search_example) search_example
        SEQUENCE_TABLE CACHE_PERMANENT 0 = Some 0"
proof -
  have h1: "example_tables search_example SEQUENCE_TABLE = Some (sequenceTable search_example)"
    by (simp add: example_tables_def)
  have h2: "unat (identity_index SEQUENCE_TABLE 0) < length (tbl_entries (sequenceTable search_example))"
    by (simp add: identity_index_def search_example_def)
  have k: "IS_KSEG0 (0x80200000 :: u32)" by (simp add: IS_KSEG0_def)
  have e: "romAddr (tbl_entries (sequenceTable search_example) ! unat (identity_index SEQUENCE_TABLE 0))
             = 0x80200000"
    by (simp add: identity_index_def search_example_def)
  have l: "cache_key SEQUENCE_TABLE (identity_index SEQUENCE_TABLE 0) \<in> loadedCache search_example"
    "cache_key SEQUENCE_TABLE (identity_index SEQUENCE_TABLE 0) \<notin> permanentCache search_example"
    by (simp_all add: identity_index_def search_example_def)
  have c: "CACHE_EITHER \<noteq> CACHE_PERMANENT"
    by (simp add: CACHE_EITHER_def CACHE_PERMANENT_def)
  note inst = search_caches_cached_iff [where loadTable = "example_tables search_example"
      and realIndex = identity_index and tableType = SEQUENCE_TABLE and ident = 0
      and table = "sequenceTable search_example" and s = search_example, OF h1 h2]
  from inst [of CACHE_EITHER] inst [of CACHE_PERMANENT]
  show ?thesis using h1 h2 k e l c by simp
qed

lemma scan_persistent_iff:
  "scan_persistent es tableType realId \<longleftrightarrow> (\<exists>e \<in> set es. pce_matches tableType realId e)"
  by (induction es) (auto simp: pce_matches_def)

lemma sint_u16_eq_small:
  fixes x :: u16
  assumes "sint x = k" and "- 32768 \<le> k" and "k < 32768"
  shows "x = word_of_int k"
  using assms by auto

lemma kind_sint:
  assumes "is_table_kind tableType"
  shows "sint (ucast tableType :: u16) = sint tableType \<and> - 32768 \<le> sint tableType \<and> sint tableType < 32768
        \<and> (ucast tableType :: u16) = word_of_int (sint tableType)"
  using assms
  by (auto simp: is_table_kind_def SEQUENCE_TABLE_def FONT_TABLE_def SAMPLE_TABLE_def)

lemma kind_matches_iff:
  assumes "is_table_kind tableType"
  shows "pce_matches tableType realId e \<longleftrightarrow> e = mk_entry tableType realId"
proof
  assume m: "pce_matches tableType realId e"
  then have "sint (pce_tableType e) = sint tableType" and i: "pce_id e = realId"
    by (simp_all add: pce_matches_def)
  with kind_sint [OF assms] have "pce_tableType e = ucast tableType"
    using sint_u16_eq_small [of "pce_tableType e" "sint tableType"] by simp
  with i show "e = mk_entry tableType realId" by (simp add: mk_entry_def)
next
  assume e: "e = mk_entry tableType realId"
  from kind_sint [OF assms] have "sint (ucast tableType :: u16) = sint tableType" by blast
  then show "pce_matches tableType realId e"
    by (simp add: e mk_entry_def pce_matches_def)
qed

lemma push_effect:
  assumes "pc_inv s"
  shows "\<exists>s'. AudioApi_PushFakeCache realIndex s tableType policy ident = Some s'
     \<and> pc_inv s'
     \<and> loadedCache s' = insert (cache_key tableType (realIndex tableType ident)) (loadedCache s)
     \<and> permanentCache s' =
         (if policy = CACHE_LOAD_PERMANENT
          then insert (cache_key tableType (realIndex tableType ident)) (permanentCache s)
          else permanentCache s)
     \<and> sExtSeqLoadStatus s' = sExtSeqLoadStatus s
     \<and> sExtSoundFontLoadStatus s' = sExtSoundFontLoadStatus s
     \<and> (if policy = CACHE_LOAD_PERSISTENT \<and> length (pstack s) < 16
            \<and> \<not> (\<exists>e \<in> set (pstack s). pce_matches tableType (realIndex tableType ident) e)
         then pstack s' = pstack s @ [mk_entry tableType (realIndex tableType ident)]
         else persistentCache s' = persistentCache s)"
proof -
  let ?pc = "persistentCache s"
  let ?n = "pc_numEntries ?pc"
  from assms have n: "0 \<le> ?n" "?n \<le> 16" and len: "length (pc_entries ?pc) = 16"
    by (simp_all add: pc_inv_def)
  have lp: "length (pstack s) = nat ?n" using n len by (simp add: pstack_def)
  have c: "CACHE_LOAD_PERMANENT \<noteq> CACHE_LOAD_PERSISTENT"
    by (simp add: CACHE_LOAD_PERMANENT_def CACHE_LOAD_PERSISTENT_def)
  have app: "take (nat (?n + 1)) ((pc_entries ?pc)[nat ?n := x]) = take (nat ?n) (pc_entries ?pc) @ [x]"
    if "?n < 16" for x
  proof -
    have "nat (?n + 1) = Suc (nat ?n)" using n by simp
    moreover have "nat ?n < length ((pc_entries ?pc)[nat ?n := x])" using that n len by simp
    ultimately show ?thesis
      by (simp add: take_Suc_conv_app_nth)
  qed
  show ?thesis
    using n len lp c app
    by (auto simp: AudioApi_PushFakeCache_def Let_def MAX_PERSISTENT_CACHE_ENTRIES_def
        scan_persistent_iff pstack_def pc_inv_def mk_entry_def)
qed

lemma find_most_recent_none:
  assumes "i < int (length es)"
    and "\<forall>x \<in> set (take (nat (i + 1)) es). sint (pce_tableType x) \<noteq> sint tableType"
  shows "find_most_recent es tableType i = Some None"
  using assms
proof (induction es tableType i rule: find_most_recent.induct)
  case (1 es tableType i)
  show ?case
  proof (cases "i \<ge> 0")
    case False
    then show ?thesis by (simp add: find_most_recent.simps [of es tableType i])
  next
    case True
    with "1.prems"(1) have lt: "nat i < length es" by simp
    have "es ! nat i \<in> set (take (nat (i + 1)) es)"
      using True lt by (auto simp: in_set_conv_nth intro!: exI [of _ "nat i"])
    with "1.prems"(2) have nm: "sint (pce_tableType (es ! nat i)) \<noteq> sint tableType" by blast
    have sub: "set (take (nat (i - 1 + 1)) es) \<subseteq> set (take (nat (i + 1)) es)"
      by (rule set_take_subset_set_take) simp
    have "find_most_recent es tableType (i - 1) = Some None"
      using "1.IH" [OF True lt nm] "1.prems" sub by auto
    then show ?thesis
      using True lt nm by (simp add: find_most_recent.simps [of es tableType i])
  qed
qed

lemma find_most_recent_some:
  assumes "take (nat (i + 1)) es = older @ e # newer"
    and "sint (pce_tableType e) = sint tableType"
    and "\<forall>x \<in> set newer. sint (pce_tableType x) \<noteq> sint tableType"
    and "i < int (length es)" and "- 1 \<le> i"
  shows "find_most_recent es tableType i = Some (Some (int (length older)))"
  using assms
proof (induction newer arbitrary: i rule: rev_induct)
  case Nil
  from Nil.prems(4,5) have "length (take (nat (i + 1)) es) = nat (i + 1)" by simp
  moreover from Nil.prems(1) have "length (take (nat (i + 1)) es) = length (older @ [e])"
    by simp
  ultimately have i: "nat (i + 1) = Suc (length older)" by simp
  then have i': "i = int (length older)" by linarith
  have "es ! length older = (take (nat (i + 1)) es) ! length older"
    using i by simp
  then have "es ! length older = e" using Nil.prems(1) by simp
  then show ?case
    using i' Nil.prems(2,4)
    by (simp add: find_most_recent.simps [of es tableType "int (length older)"])
next
  case (snoc y ys)
  from snoc.prems(4,5) have "length (take (nat (i + 1)) es) = nat (i + 1)" by simp
  moreover from snoc.prems(1) have "length (take (nat (i + 1)) es) = length (older @ e # ys @ [y])"
    by simp
  ultimately have i: "nat (i + 1) = Suc (length older + Suc (length ys))" by simp
  then have i': "i = int (length older + Suc (length ys))" by linarith
  then have ige: "i \<ge> 0" and ilt: "nat i < length es" using snoc.prems(4) by simp_all
  have ni: "nat i = length older + Suc (length ys)" using i' by simp
  have "es ! nat i = (take (nat (i + 1)) es) ! nat i" using i' by simp
  also have "\<dots> = (older @ e # ys @ [y]) ! nat i"
    using snoc.prems(1) by simp
  also have "\<dots> = y" unfolding ni by (simp add: nth_append)
  finally have last: "es ! nat i = y" .
  then have nm: "sint (pce_tableType (es ! nat i)) \<noteq> sint tableType"
    using snoc.prems(3) by simp
  have "take (nat i) es = take (nat i) (take (nat (i + 1)) es)" by (simp add: min_def)
  also have "\<dots> = take (nat i) (older @ e # ys @ [y])" using snoc.prems(1) by simp
  also have "\<dots> = older @ e # ys" unfolding ni by simp
  finally have tk: "take (nat (i - 1 + 1)) es = older @ e # ys" by simp
  have "find_most_recent es tableType (i - 1) = Some (Some (int (length older)))"
    using snoc.IH [OF tk snoc.prems(2)] snoc.prems(3,4) ige by simp
  then show ?case
    using ige ilt nm by (simp add: find_most_recent.simps [of es tableType i])
qed

lemma shift_down_nth:
  assumes "0 \<le> i" and "i \<le> m" and "nat m < length es"
  shows "\<exists>es'. shift_down i m es = Some es' \<and> length es' = length es
     \<and> (\<forall>k < length es. es' ! k = (if nat i \<le> k \<and> k < nat m then es ! (k + 1) else es ! k))"
  using assms
proof (induction i m es rule: shift_down.induct)
  case (1 i n es)
  show ?case
  proof (cases "i < n")
    case False
    then have "shift_down i n es = Some es" by (simp add: shift_down.simps [of i n es])
    then show ?thesis using False by auto
  next
    case True
    let ?es1 = "es[nat i := es ! nat (i + 1)]"
    have ok: "0 \<le> i \<and> nat (i + 1) < length es" using True "1.prems" by simp
    from "1.IH" [OF True ok] "1.prems" True
    obtain es' where r: "shift_down (i + 1) n ?es1 = Some es'" and l: "length es' = length es"
      and v: "\<forall>k < length es. es' ! k =
                (if nat (i + 1) \<le> k \<and> k < nat n then ?es1 ! (k + 1) else ?es1 ! k)"
      by auto
    have "\<forall>k < length es. es' ! k = (if nat i \<le> k \<and> k < nat n then es ! (k + 1) else es ! k)"
    proof (intro allI impI)
      fix k assume k: "k < length es"
      have s: "nat (i + 1) = Suc (nat i)" using "1.prems"(1) by simp
      show "es' ! k = (if nat i \<le> k \<and> k < nat n then es ! (k + 1) else es ! k)"
      proof (cases "k = nat i")
        case True
        then show ?thesis using v k s \<open>i < n\<close> "1.prems" by simp
      next
        case False
        then show ?thesis using v k s by (auto simp: nth_list_update)
      qed
    qed
    with r l ok True show ?thesis by (simp add: shift_down.simps [of i n es])
  qed
qed

lemma shift_down_stack:
  assumes tk: "take (nat n) es = older @ e # newer" and n: "n \<le> int (length es)"
  shows "\<exists>es'. shift_down (int (length older)) (n - 1) es = Some es' \<and> length es' = length es
     \<and> take (nat (n - 1)) es' = older @ newer"
proof -
  from tk n have ln: "nat n = Suc (length older + length newer)"
    by (metis length_append length_Cons length_take min.absorb2 nat_le_iff add_Suc_right)
  then have n1: "nat (n - 1) = length older + length newer" by linarith
  have m: "nat (n - 1) < length es" using ln n by linarith
  have "int (length older) \<le> n - 1" using ln by linarith
  from shift_down_nth [OF _ this m] obtain es' where
    r: "shift_down (int (length older)) (n - 1) es = Some es'" and l: "length es' = length es"
    and v: "\<forall>k < length es. es' ! k =
              (if length older \<le> k \<and> k < nat (n - 1) then es ! (k + 1) else es ! k)"
    by auto
  have old: "es ! j = (older @ e # newer) ! j" if "j < nat n" for j
    using that tk by (metis nth_take)
  have "take (nat (n - 1)) es' = older @ newer"
  proof (rule nth_equalityI)
    show "length (take (nat (n - 1)) es') = length (older @ newer)"
      using l m n1 by simp
  next
    fix k assume "k < length (take (nat (n - 1)) es')"
    then have k: "k < length older + length newer" using n1 by simp
    then have kl: "k < length es" using m n1 by simp
    have "take (nat (n - 1)) es' ! k = es' ! k" using k n1 by simp
    also have "\<dots> = (if length older \<le> k then es ! (k + 1) else es ! k)"
      using v kl k n1 by simp
    also have "\<dots> = (older @ newer) ! k"
      using k ln by (auto simp: old nth_append Suc_diff_le)
    finally show "take (nat (n - 1)) es' ! k = (older @ newer) ! k" .
  qed
  with r l show ?thesis by blast
qed

lemma pop_no_match:
  assumes "pc_inv s"
    and "\<forall>e \<in> set (pstack s). sint (pce_tableType e) \<noteq> sint tableType"
  shows "AudioHeap_PopPersistentCache realIndex s tableType = Some s"
proof -
  let ?pc = "persistentCache s"
  from assms(1) have n: "0 \<le> pc_numEntries ?pc" "pc_numEntries ?pc \<le> 16"
    and len: "length (pc_entries ?pc) = 16" by (simp_all add: pc_inv_def)
  have "find_most_recent (pc_entries ?pc) tableType (pc_numEntries ?pc - 1) = Some None"
    by (rule find_most_recent_none) (use n len assms(2) in \<open>simp_all add: pstack_def\<close>)
  then show ?thesis by (simp add: AudioHeap_PopPersistentCache_def Let_def)
qed

lemma pop_match:
  assumes inv: "pc_inv s"
    and st: "pstack s = older @ e # newer"
    and m: "sint (pce_tableType e) = sint tableType"
    and nm: "\<forall>x \<in> set newer. sint (pce_tableType x) \<noteq> sint tableType"
    and pop: "AudioHeap_PopPersistentCache realIndex s tableType = Some s'"
  shows "\<exists>s2. AudioApi_SetTableEntryLoadStatus realIndex
             (if tableType = FONT_TABLE
              then s\<lparr>discardedFonts := discardedFonts s @ [pce_id e]\<rparr> else s)
             tableType (pce_id e) LOAD_STATUS_NOT_LOADED = Some s2
     \<and> pstack s' = older @ newer \<and> pc_inv s'
     \<and> pc_numEntries (persistentCache s') = pc_numEntries (persistentCache s) - 1
     \<and> permanentCache s' = permanentCache s2 \<and> loadedCache s' = loadedCache s2
     \<and> sExtSeqLoadStatus s' = sExtSeqLoadStatus s2
     \<and> sExtSoundFontLoadStatus s' = sExtSoundFontLoadStatus s2
     \<and> discardedFonts s' = discardedFonts s2
     \<and> soundFontTable s' = soundFontTable s2 \<and> sequenceTable s' = sequenceTable s2"
proof -
  let ?pc = "persistentCache s"
  let ?n = "pc_numEntries ?pc"
  let ?es = "pc_entries ?pc"
  from inv have n: "0 \<le> ?n" "?n \<le> 16" and len: "length ?es = 16" by (simp_all add: pc_inv_def)
  from st have tk: "take (nat ?n) ?es = older @ e # newer" by (simp add: pstack_def)
  have nle: "?n \<le> int (length ?es)" using n len by simp
  have "length (take (nat ?n) ?es) = length (older @ e # newer)" using tk by simp
  then have ln: "nat ?n = Suc (length older + length newer)" using n len by simp
  then have n1: "1 \<le> ?n" by linarith
  have tk': "take (nat (?n - 1 + 1)) ?es = older @ e # newer" using tk by simp
  have f: "find_most_recent ?es tableType (?n - 1) = Some (Some (int (length older)))"
    by (rule find_most_recent_some [OF tk' m nm]) (use n1 nle in simp_all)
  have ei: "?es ! length older = e"
  proof -
    have "?es ! length older = take (nat ?n) ?es ! length older" using ln by simp
    then show ?thesis by (simp add: tk)
  qed
  from shift_down_stack [OF tk nle] obtain es' where
    sh: "shift_down (int (length older)) (?n - 1) ?es = Some es'"
    and l': "length es' = length ?es" and tk2: "take (nat (?n - 1)) es' = older @ newer"
    by blast
  from pop f ei sh obtain s2 where
    set: "AudioApi_SetTableEntryLoadStatus realIndex
             (if tableType = FONT_TABLE
              then s\<lparr>discardedFonts := discardedFonts s @ [pce_id e]\<rparr> else s)
             tableType (pce_id e) LOAD_STATUS_NOT_LOADED = Some s2"
    and s': "s' = s2\<lparr>persistentCache := \<lparr>pc_numEntries = ?n - 1, pc_entries = es'\<rparr>\<rparr>"
    by (auto simp: AudioHeap_PopPersistentCache_def Let_def split: option.splits if_splits)
  have "pc_inv s'" using n n1 l' len by (simp add: s' pc_inv_def)
  moreover have "pstack s' = older @ newer" using tk2 by (simp add: s' pstack_def)
  ultimately show ?thesis using set by (simp add: s')
qed

lemma stack_split_last_match:
  assumes "\<exists>e \<in> set xs. P e"
  shows "\<exists>older e newer. xs = older @ e # newer \<and> P e \<and> (\<forall>x \<in> set newer. \<not> P x)"
  using assms by (metis split_list_last_prop)

lemma pop_inv:
  assumes "pc_inv s" and "AudioHeap_PopPersistentCache realIndex s tableType = Some s'"
  shows "pc_inv s' \<and> length (pstack s') \<le> length (pstack s)"
proof (cases "\<exists>e \<in> set (pstack s). sint (pce_tableType e) = sint tableType")
  case False
  with pop_no_match [OF assms(1), of tableType realIndex] assms show ?thesis by simp
next
  case True
  from stack_split_last_match [OF True] obtain older e newer where
    "pstack s = older @ e # newer" "sint (pce_tableType e) = sint tableType"
    "\<forall>x \<in> set newer. sint (pce_tableType x) \<noteq> sint tableType" by blast
  from pop_match [OF assms(1) this assms(2)] this(1) show ?thesis by auto
qed

lemma pstack_length: "pc_inv s \<Longrightarrow> length (pstack s) = nat (pc_numEntries (persistentCache s))"
  by (auto simp: pc_inv_def pstack_def)

lemma pstack_le: "pc_inv s \<Longrightarrow> length (pstack s) \<le> 16"
  by (auto simp: pc_inv_def pstack_def)

lemma reset_inv:
  assumes "pc_inv s" and "AudioHeap_ResetLoadStatus realIndex s = Some s'"
  shows "pc_inv s' \<and> pstack s' = []"
proof -
  let ?s0 = "s\<lparr>persistentCache := (persistentCache s)\<lparr>pc_numEntries := 0\<rparr>\<rparr>"
  from assms(2) obtain s1 where
    l1: "reset_loop realIndex FONT_TABLE (header_numEntries (soundFontTable s)) 0 ?s0 = Some s1"
    and l2: "reset_loop realIndex SEQUENCE_TABLE (header_numEntries (sequenceTable s1)) 0 s1 = Some s'"
    by (auto simp: AudioHeap_ResetLoadStatus_def Let_def split: option.splits)
  from reset_loop_effect [OF l1] reset_loop_effect [OF l2]
  have "persistentCache s' = (persistentCache s)\<lparr>pc_numEntries := 0\<rparr>"
    by (simp add: same_but_status_def)
  with assms(1) show ?thesis by (simp add: pc_inv_def pstack_def)
qed

lemma push_keys_stack:
  assumes "pc_inv s" and "\<forall>k \<in> set ks. is_table_kind (fst k)"
    and "distinct (pstack s @ map (\<lambda>k. mk_entry (fst k) (realIndex (fst k) (snd k))) ks)"
  shows "\<exists>s'. push_keys realIndex s ks = Some s' \<and> pc_inv s'
     \<and> pstack s' = take 16 (pstack s @ map (\<lambda>k. mk_entry (fst k) (realIndex (fst k) (snd k))) ks)"
  using assms
proof (induction ks arbitrary: s)
  case Nil
  then show ?case using pstack_le [of s] by simp
next
  case (Cons k ks)
  let ?e = "mk_entry (fst k) (realIndex (fst k) (snd k))"
  from Cons.prems(2) have kind: "is_table_kind (fst k)" by simp
  from push_effect [OF Cons.prems(1), of realIndex "fst k" CACHE_LOAD_PERSISTENT "snd k"]
  obtain s1 where p: "AudioApi_PushFakeCache realIndex s (fst k) CACHE_LOAD_PERSISTENT (snd k) = Some s1"
    and inv1: "pc_inv s1"
    and st: "if length (pstack s) < 16
                \<and> \<not> (\<exists>e \<in> set (pstack s). pce_matches (fst k) (realIndex (fst k) (snd k)) e)
             then pstack s1 = pstack s @ [?e] else persistentCache s1 = persistentCache s"
    by auto
  have notin: "?e \<notin> set (pstack s)" using Cons.prems(3) by auto
  then have nomatch: "\<not> (\<exists>e \<in> set (pstack s). pce_matches (fst k) (realIndex (fst k) (snd k)) e)"
    by (simp add: kind_matches_iff [OF kind])
  have le: "length (pstack s) \<le> 16" using Cons.prems(1) by (rule pstack_le)
  show ?case
  proof (cases "length (pstack s) < 16")
    case True
    with st nomatch have s1: "pstack s1 = pstack s @ [?e]" by simp
    have d: "distinct (pstack s1 @ map (\<lambda>k. mk_entry (fst k) (realIndex (fst k) (snd k))) ks)"
      using Cons.prems(3) by (simp add: s1)
    from Cons.IH [OF inv1 _ d] Cons.prems(2) obtain s' where
      "push_keys realIndex s1 ks = Some s'" "pc_inv s'"
      "pstack s' = take 16 (pstack s1 @ map (\<lambda>k. mk_entry (fst k) (realIndex (fst k) (snd k))) ks)"
      by auto
    then show ?thesis using p by (simp add: s1)
  next
    case False
    with le have full: "length (pstack s) = 16" by simp
    from False st have "persistentCache s1 = persistentCache s" by simp
    then have s1: "pstack s1 = pstack s" by (simp add: pstack_def)
    have d: "distinct (pstack s1 @ map (\<lambda>k. mk_entry (fst k) (realIndex (fst k) (snd k))) ks)"
      using Cons.prems(3) by (simp add: s1)
    from Cons.IH [OF inv1 _ d] Cons.prems(2) obtain s' where
      "push_keys realIndex s1 ks = Some s'" "pc_inv s'"
      "pstack s' = take 16 (pstack s1 @ map (\<lambda>k. mk_entry (fst k) (realIndex (fst k) (snd k))) ks)"
      by auto
    then show ?thesis using p full by (simp add: s1)
  qed
qed

lemma mk_entry_inj:
  assumes "is_table_kind a" and "is_table_kind b"
  shows "mk_entry a r = mk_entry b r' \<longleftrightarrow> a = b \<and> r = r'"
  using assms
  by (auto simp: mk_entry_def is_table_kind_def SEQUENCE_TABLE_def FONT_TABLE_def SAMPLE_TABLE_def)

lemma distinct_entries:
  assumes "\<forall>k \<in> set ks. is_table_kind (fst k)"
    and "distinct (map (\<lambda>k. (fst k, realIndex (fst k) (snd k))) ks)"
  shows "distinct (map (\<lambda>k. mk_entry (fst k) (realIndex (fst k) (snd k))) ks)"
proof -
  have "map (\<lambda>k. mk_entry (fst k) (realIndex (fst k) (snd k))) ks
      = map (\<lambda>p. mk_entry (fst p) (snd p)) (map (\<lambda>k. (fst k, realIndex (fst k) (snd k))) ks)"
    by simp
  moreover have "inj_on (\<lambda>p. mk_entry (fst p) (snd p))
      (set (map (\<lambda>k. (fst k, realIndex (fst k) (snd k))) ks))"
    using assms(1) by (auto simp: inj_on_def mk_entry_inj)
  ultimately show ?thesis
    using assms(2) by (simp only: distinct_map)
qed

text \<open>
  Claim C6.  In every state that satisfies the representation invariant of the persistent
  cache (a count between 0 and 16 over the 16-slot array; the zero-initialised global
  satisfies it), the stack holds at most 16 entries, and \<open>AudioApi_PushFakeCache\<close> returns
  with the invariant kept.  It appends the key exactly when the policy is
  \<open>CACHE_LOAD_PERSISTENT\<close>, fewer than 16 entries are held and no held entry matches the
  (kind, real index) pair; otherwise the persistent cache is left as it is (a full stack and
  a duplicate key are both dropped without a trace).  For the three table kinds a held
  entry matches exactly when it is the entry of that key.  Pop and reset keep the
  invariant.  Pushing 16 distinct keys onto the empty stack fills it with these keys in
  order, and a 17th push, of any key, changes nothing.
\<close>

theorem persistent_stack_bound:
  assumes "pc_inv s"
  shows "length (pstack s) \<le> 16
   \<and> (\<exists>s'. AudioApi_PushFakeCache realIndex s tableType policy ident = Some s' \<and> pc_inv s'
         \<and> (if policy = CACHE_LOAD_PERSISTENT \<and> length (pstack s) < 16
                \<and> \<not> (\<exists>e \<in> set (pstack s). pce_matches tableType (realIndex tableType ident) e)
             then pstack s' = pstack s @ [mk_entry tableType (realIndex tableType ident)]
             else persistentCache s' = persistentCache s))
   \<and> (is_table_kind tableType \<longrightarrow>
         (\<exists>e \<in> set (pstack s). pce_matches tableType (realIndex tableType ident) e)
           = (mk_entry tableType (realIndex tableType ident) \<in> set (pstack s)))
   \<and> (\<forall>s'. AudioHeap_PopPersistentCache realIndex s tableType = Some s' \<longrightarrow> pc_inv s')
   \<and> (\<forall>s'. AudioHeap_ResetLoadStatus realIndex s = Some s' \<longrightarrow> pc_inv s')
   \<and> (\<forall>ks k17. pstack s = [] \<and> length ks = 16 \<and> (\<forall>k \<in> set ks. is_table_kind (fst k))
          \<and> distinct (map (\<lambda>k. (fst k, realIndex (fst k) (snd k))) ks)
        \<longrightarrow> (\<exists>s16 s17. push_keys realIndex s ks = Some s16 \<and> length (pstack s16) = 16
               \<and> pstack s16 = map (\<lambda>k. mk_entry (fst k) (realIndex (fst k) (snd k))) ks
               \<and> AudioApi_PushFakeCache realIndex s16 (fst k17) CACHE_LOAD_PERSISTENT (snd k17)
                   = Some s17
               \<and> persistentCache s17 = persistentCache s16))"
proof -
  have a: "length (pstack s) \<le> 16" using assms by (rule pstack_le)
  have b: "\<exists>s'. AudioApi_PushFakeCache realIndex s tableType policy ident = Some s' \<and> pc_inv s'
         \<and> (if policy = CACHE_LOAD_PERSISTENT \<and> length (pstack s) < 16
                \<and> \<not> (\<exists>e \<in> set (pstack s). pce_matches tableType (realIndex tableType ident) e)
             then pstack s' = pstack s @ [mk_entry tableType (realIndex tableType ident)]
             else persistentCache s' = persistentCache s)"
    using push_effect [OF assms, of realIndex tableType policy ident] by blast
  have c: "is_table_kind tableType \<longrightarrow>
         (\<exists>e \<in> set (pstack s). pce_matches tableType (realIndex tableType ident) e)
           = (mk_entry tableType (realIndex tableType ident) \<in> set (pstack s))"
    by (auto simp: kind_matches_iff)
  have d: "\<forall>s'. AudioHeap_PopPersistentCache realIndex s tableType = Some s' \<longrightarrow> pc_inv s'"
    using pop_inv [OF assms] by blast
  have e: "\<forall>s'. AudioHeap_ResetLoadStatus realIndex s = Some s' \<longrightarrow> pc_inv s'"
    using reset_inv [OF assms] by blast
  have f: "\<exists>s16 s17. push_keys realIndex s ks = Some s16 \<and> length (pstack s16) = 16
               \<and> pstack s16 = map (\<lambda>k. mk_entry (fst k) (realIndex (fst k) (snd k))) ks
               \<and> AudioApi_PushFakeCache realIndex s16 (fst k17) CACHE_LOAD_PERSISTENT (snd k17)
                   = Some s17
               \<and> persistentCache s17 = persistentCache s16"
    if h: "pstack s = [] \<and> length ks = 16 \<and> (\<forall>k \<in> set ks. is_table_kind (fst k))
          \<and> distinct (map (\<lambda>k. (fst k, realIndex (fst k) (snd k))) ks)" for ks k17
  proof -
    from h have kinds: "\<forall>k \<in> set ks. is_table_kind (fst k)" and e: "pstack s = []"
      and l: "length ks = 16" by simp_all
    have dist: "distinct (pstack s @ map (\<lambda>k. mk_entry (fst k) (realIndex (fst k) (snd k))) ks)"
      using distinct_entries [OF kinds] h by (simp add: e)
    from push_keys_stack [OF assms kinds dist] obtain s16 where
      p: "push_keys realIndex s ks = Some s16" and inv: "pc_inv s16"
      and st: "pstack s16 = map (\<lambda>k. mk_entry (fst k) (realIndex (fst k) (snd k))) ks"
      using l by (auto simp: e)
    have full: "length (pstack s16) = 16" using st l by simp
    from push_effect [OF inv, of realIndex "fst k17" CACHE_LOAD_PERSISTENT "snd k17"] full
    obtain s17 where
      "AudioApi_PushFakeCache realIndex s16 (fst k17) CACHE_LOAD_PERSISTENT (snd k17) = Some s17"
      "persistentCache s17 = persistentCache s16" by auto
    with p full st show ?thesis by blast
  qed
  show ?thesis
    apply (intro conjI)
    using a apply assumption
    using b apply assumption
    using c apply assumption
    using d apply assumption
    using e apply assumption
    using f apply blast
    done
qed

lemma boot_inv: "pc_inv boot_state"
  by (simp add: pc_inv_def boot_state_def zero_entries_def)

theorem persistent_stack_bound_witness:
  "pc_inv boot_state \<and> pstack boot_state = []
   \<and> (\<exists>s'. AudioApi_PushFakeCache identity_index boot_state SEQUENCE_TABLE CACHE_LOAD_PERSISTENT 3
             = Some s'
          \<and> pc_inv s' \<and> pstack s' = [mk_entry SEQUENCE_TABLE 3])
   \<and> length sixteen_keys = 16
   \<and> (\<exists>s16 s17. push_keys identity_index boot_state sixteen_keys = Some s16
          \<and> length (pstack s16) = 16
          \<and> AudioApi_PushFakeCache identity_index s16 FONT_TABLE CACHE_LOAD_PERSISTENT 1 = Some s17
          \<and> persistentCache s17 = persistentCache s16)"
proof -
  have e: "pstack boot_state = []" by (simp add: pstack_def boot_state_def)
  have l: "length sixteen_keys = 16" by (simp add: sixteen_keys_def)
  have k: "\<forall>k \<in> set sixteen_keys. is_table_kind (fst k)"
    by (simp add: sixteen_keys_def is_table_kind_def)
  have d: "distinct (map (\<lambda>k. (fst k, identity_index (fst k) (snd k))) sixteen_keys)"
    by (simp add: sixteen_keys_def identity_index_def)
  note th = persistent_stack_bound [OF boot_inv, of identity_index SEQUENCE_TABLE CACHE_LOAD_PERSISTENT 3]
  from th have "\<exists>s'. AudioApi_PushFakeCache identity_index boot_state SEQUENCE_TABLE CACHE_LOAD_PERSISTENT 3
             = Some s'
          \<and> pc_inv s' \<and> pstack s' = [mk_entry SEQUENCE_TABLE 3]"
    using e by (simp add: identity_index_def)
  moreover from th have "\<forall>ks k17. pstack boot_state = [] \<and> length ks = 16
          \<and> (\<forall>k \<in> set ks. is_table_kind (fst k))
          \<and> distinct (map (\<lambda>k. (fst k, identity_index (fst k) (snd k))) ks)
        \<longrightarrow> (\<exists>s16 s17. push_keys identity_index boot_state ks = Some s16 \<and> length (pstack s16) = 16
               \<and> pstack s16 = map (\<lambda>k. mk_entry (fst k) (identity_index (fst k) (snd k))) ks
               \<and> AudioApi_PushFakeCache identity_index s16 (fst k17) CACHE_LOAD_PERSISTENT (snd k17)
                   = Some s17
               \<and> persistentCache s17 = persistentCache s16)"
    by blast
  from this [rule_format, of sixteen_keys "(FONT_TABLE, 1)"] e l k d
  have "\<exists>s16 s17. push_keys identity_index boot_state sixteen_keys = Some s16
          \<and> length (pstack s16) = 16
          \<and> AudioApi_PushFakeCache identity_index s16 FONT_TABLE CACHE_LOAD_PERSISTENT 1 = Some s17
          \<and> persistentCache s17 = persistentCache s16"
    by auto
  ultimately show ?thesis using boot_inv e l by blast
qed

lemma set_then_get:
  assumes "AudioApi_SetTableEntryLoadStatus realIndex s tableType ident LOAD_STATUS_NOT_LOADED = Some s2"
    and "\<not> is_sentinel_id ident"
  shows "AudioApi_GetTableEntryLoadStatus realIndex s2 tableType ident = Some LOAD_STATUS_NOT_LOADED"
proof (cases "tableType = SEQUENCE_TABLE \<or> tableType = FONT_TABLE")
  case True
  from set_status_cases [OF True assms(1)] assms(2)
  have "unat (realIndex tableType ident) < length (status_array s tableType)"
    and "status_array s2 tableType =
           (status_array s tableType)[unat (realIndex tableType ident) := ucast LOAD_STATUS_NOT_LOADED]"
    by simp_all
  then show ?thesis
    using assms(2) by (simp add: get_status_cases [OF True] LOAD_STATUS_NOT_LOADED_def)
next
  case False
  then show ?thesis using assms(2) by (simp add: get_status_other)
qed

lemma set_frame:
  assumes "AudioApi_SetTableEntryLoadStatus realIndex s tableType ident status = Some s2"
  shows "same_but_status s s2
     \<and> (is_sentinel_id ident \<longrightarrow> sExtSeqLoadStatus s2 = sExtSeqLoadStatus s
            \<and> sExtSoundFontLoadStatus s2 = sExtSoundFontLoadStatus s)"
  using assms
  by (auto simp: AudioApi_SetTableEntryLoadStatus_def same_but_status_def is_sentinel_id_def Let_def
      split: if_splits)

lemma get_ignores_cache:
  assumes "sExtSeqLoadStatus s' = sExtSeqLoadStatus s"
    and "sExtSoundFontLoadStatus s' = sExtSoundFontLoadStatus s"
  shows "AudioApi_GetTableEntryLoadStatus realIndex s' tableType ident
       = AudioApi_GetTableEntryLoadStatus realIndex s tableType ident"
  using assms by (simp add: AudioApi_GetTableEntryLoadStatus_def Let_def)

lemma pop_persistent_cache_effect:
  assumes "pc_inv s"
  shows "((\<forall>e \<in> set (pstack s). sint (pce_tableType e) \<noteq> sint tableType)
           \<longrightarrow> AudioHeap_PopPersistentCache realIndex s tableType = Some s)
   \<and> (\<forall>older e newer s'.
         pstack s = older @ e # newer \<and> sint (pce_tableType e) = sint tableType
         \<and> (\<forall>x \<in> set newer. sint (pce_tableType x) \<noteq> sint tableType)
         \<and> AudioHeap_PopPersistentCache realIndex s tableType = Some s'
         \<longrightarrow> pstack s' = older @ newer
             \<and> discardedFonts s' =
                 discardedFonts s @ (if tableType = FONT_TABLE then [pce_id e] else [])
             \<and> (\<not> is_sentinel_id (pce_id e) \<longrightarrow>
                   AudioApi_GetTableEntryLoadStatus realIndex s' tableType (pce_id e)
                     = Some LOAD_STATUS_NOT_LOADED)
             \<and> (is_sentinel_id (pce_id e) \<longrightarrow>
                   sExtSeqLoadStatus s' = sExtSeqLoadStatus s
                   \<and> sExtSoundFontLoadStatus s' = sExtSoundFontLoadStatus s)
             \<and> permanentCache s' = permanentCache s \<and> loadedCache s' = loadedCache s)"
proof (intro conjI allI impI)
  assume "\<forall>e \<in> set (pstack s). sint (pce_tableType e) \<noteq> sint tableType"
  then show "AudioHeap_PopPersistentCache realIndex s tableType = Some s"
    by (rule pop_no_match [OF assms])
next
  fix older e newer s'
  assume h: "pstack s = older @ e # newer \<and> sint (pce_tableType e) = sint tableType
         \<and> (\<forall>x \<in> set newer. sint (pce_tableType x) \<noteq> sint tableType)
         \<and> AudioHeap_PopPersistentCache realIndex s tableType = Some s'"
  let ?s1 = "if tableType = FONT_TABLE
              then s\<lparr>discardedFonts := discardedFonts s @ [pce_id e]\<rparr> else s"
  from h have h1: "pstack s = older @ e # newer" and h2: "sint (pce_tableType e) = sint tableType"
    and h3: "\<forall>x \<in> set newer. sint (pce_tableType x) \<noteq> sint tableType"
    and h4: "AudioHeap_PopPersistentCache realIndex s tableType = Some s'" by simp_all
  from pop_match [OF assms h1 h2 h3 h4] obtain s2 where
    set: "AudioApi_SetTableEntryLoadStatus realIndex ?s1 tableType (pce_id e) LOAD_STATUS_NOT_LOADED
            = Some s2"
    and st: "pstack s' = older @ newer"
    and fr: "permanentCache s' = permanentCache s2" "loadedCache s' = loadedCache s2"
      "sExtSeqLoadStatus s' = sExtSeqLoadStatus s2"
      "sExtSoundFontLoadStatus s' = sExtSoundFontLoadStatus s2"
      "discardedFonts s' = discardedFonts s2"
    by blast
  note sf = set_frame [OF set]
  show "pstack s' = older @ newer" by (rule st)
  show "discardedFonts s' = discardedFonts s @ (if tableType = FONT_TABLE then [pce_id e] else [])"
    using sf fr by (simp add: same_but_status_def)
  show "permanentCache s' = permanentCache s" using sf fr by (simp add: same_but_status_def)
  show "loadedCache s' = loadedCache s" using sf fr by (simp add: same_but_status_def)
  {
    assume ns: "\<not> is_sentinel_id (pce_id e)"
    have "AudioApi_GetTableEntryLoadStatus realIndex s' tableType (pce_id e)
        = AudioApi_GetTableEntryLoadStatus realIndex s2 tableType (pce_id e)"
      by (rule get_ignores_cache) (simp_all add: fr)
    with set_then_get [OF set ns]
    show "AudioApi_GetTableEntryLoadStatus realIndex s' tableType (pce_id e)
            = Some LOAD_STATUS_NOT_LOADED" by simp
  }
  {
    assume "is_sentinel_id (pce_id e)"
    with sf fr show "sExtSeqLoadStatus s' = sExtSeqLoadStatus s" by simp
  }
  {
    assume "is_sentinel_id (pce_id e)"
    with sf fr show "sExtSoundFontLoadStatus s' = sExtSoundFontLoadStatus s" by simp
  }
qed

lemma pop_match_total:
  assumes inv: "pc_inv s"
    and st: "pstack s = older @ e # newer"
    and m: "sint (pce_tableType e) = sint tableType"
    and nm: "\<forall>x \<in> set newer. sint (pce_tableType x) \<noteq> sint tableType"
    and slot: "status_slot_ok realIndex s tableType (pce_id e)"
  shows "\<exists>s'. AudioHeap_PopPersistentCache realIndex s tableType = Some s'"
proof -
  let ?pc = "persistentCache s"
  let ?n = "pc_numEntries ?pc"
  let ?es = "pc_entries ?pc"
  let ?s1 = "if tableType = FONT_TABLE
             then s\<lparr>discardedFonts := discardedFonts s @ [pce_id e]\<rparr> else s"
  from inv have n: "0 \<le> ?n" "?n \<le> 16" and len: "length ?es = 16" by (simp_all add: pc_inv_def)
  from st have tk: "take (nat ?n) ?es = older @ e # newer" by (simp add: pstack_def)
  have nle: "?n \<le> int (length ?es)" using n len by simp
  have "length (take (nat ?n) ?es) = length (older @ e # newer)" using tk by simp
  then have ln: "nat ?n = Suc (length older + length newer)" using n len by simp
  then have n1: "1 \<le> ?n" by linarith
  have tk': "take (nat (?n - 1 + 1)) ?es = older @ e # newer" using tk by simp
  have f: "find_most_recent ?es tableType (?n - 1) = Some (Some (int (length older)))"
    by (rule find_most_recent_some [OF tk' m nm]) (use n1 nle in simp_all)
  have ei: "?es ! length older = e"
  proof -
    have "?es ! length older = take (nat ?n) ?es ! length older" using ln by simp
    then show ?thesis by (simp add: tk)
  qed
  from shift_down_stack [OF tk nle] obtain es' where
    sh: "shift_down (int (length older)) (?n - 1) ?es = Some es'" by blast
  have "status_slot_ok realIndex ?s1 tableType (pce_id e)"
    using slot by (cases "tableType = FONT_TABLE") (simp_all add: status_slot_ok_def)
  from set_status_total [OF this] obtain s2 where
    set: "AudioApi_SetTableEntryLoadStatus realIndex ?s1 tableType (pce_id e)
            LOAD_STATUS_NOT_LOADED = Some s2" by blast
  show ?thesis
    using f ei sh set by (simp add: AudioHeap_PopPersistentCache_def Let_def)
qed


text \<open>
  Claim C7 (as amended).  In a state that satisfies the invariant of the persistent cache,
  \<open>AudioHeap_PopPersistentCache\<close> is a no-op when no held entry has the requested kind.
  Otherwise, when the status slot of the most recently pushed entry of that kind lies
  inside its status array, the pop returns; it removes that entry and no other (the
  entries above it, all of other kinds, stay in their order), calls \<open>AudioHeap_DiscardFont\<close>
  for a font and nothing else for the other kinds, and leaves the permanent and loaded sets
  alone.  The load status reported for the popped entry is then \<open>LOAD_STATUS_NOT_LOADED\<close>,
  unless the low byte of its identifier is one of the reserved values \<open>0xFE\<close> and \<open>0xFF\<close>:
  for these the status arrays are not written.
\<close>

theorem pop_persistent_cache:
  assumes "pc_inv s"
  shows "((\<forall>e \<in> set (pstack s). sint (pce_tableType e) \<noteq> sint tableType)
           \<longrightarrow> AudioHeap_PopPersistentCache realIndex s tableType = Some s)
   \<and> (\<forall>older e newer.
         pstack s = older @ e # newer \<and> sint (pce_tableType e) = sint tableType
         \<and> (\<forall>x \<in> set newer. sint (pce_tableType x) \<noteq> sint tableType)
         \<and> status_slot_ok realIndex s tableType (pce_id e)
         \<longrightarrow> (\<exists>s'. AudioHeap_PopPersistentCache realIndex s tableType = Some s'
               \<and> pc_inv s' \<and> pstack s' = older @ newer
               \<and> discardedFonts s' =
                   discardedFonts s @ (if tableType = FONT_TABLE then [pce_id e] else [])
               \<and> (\<not> is_sentinel_id (pce_id e) \<longrightarrow>
                     AudioApi_GetTableEntryLoadStatus realIndex s' tableType (pce_id e)
                       = Some LOAD_STATUS_NOT_LOADED)
               \<and> (is_sentinel_id (pce_id e) \<longrightarrow>
                     sExtSeqLoadStatus s' = sExtSeqLoadStatus s
                     \<and> sExtSoundFontLoadStatus s' = sExtSoundFontLoadStatus s)
               \<and> permanentCache s' = permanentCache s \<and> loadedCache s' = loadedCache s))"
proof (intro conjI allI impI)
  assume "\<forall>e \<in> set (pstack s). sint (pce_tableType e) \<noteq> sint tableType"
  then show "AudioHeap_PopPersistentCache realIndex s tableType = Some s"
    by (rule pop_no_match [OF assms])
next
  fix older e newer
  assume h: "pstack s = older @ e # newer \<and> sint (pce_tableType e) = sint tableType
         \<and> (\<forall>x \<in> set newer. sint (pce_tableType x) \<noteq> sint tableType)
         \<and> status_slot_ok realIndex s tableType (pce_id e)"
  then have h1: "pstack s = older @ e # newer" and h2: "sint (pce_tableType e) = sint tableType"
    and h3: "\<forall>x \<in> set newer. sint (pce_tableType x) \<noteq> sint tableType"
    and h4: "status_slot_ok realIndex s tableType (pce_id e)" by simp_all
  from pop_match_total [OF assms h1 h2 h3 h4] obtain s' where
    p: "AudioHeap_PopPersistentCache realIndex s tableType = Some s'" by blast
  from pop_inv [OF assms p] have i: "pc_inv s'" by simp
  from pop_persistent_cache_effect [OF assms, of tableType realIndex, THEN conjunct2, rule_format,
      of older e newer s'] h1 h2 h3 p
  have "pstack s' = older @ newer
             \<and> discardedFonts s' =
                 discardedFonts s @ (if tableType = FONT_TABLE then [pce_id e] else [])
             \<and> (\<not> is_sentinel_id (pce_id e) \<longrightarrow>
                   AudioApi_GetTableEntryLoadStatus realIndex s' tableType (pce_id e)
                     = Some LOAD_STATUS_NOT_LOADED)
             \<and> (is_sentinel_id (pce_id e) \<longrightarrow>
                   sExtSeqLoadStatus s' = sExtSeqLoadStatus s
                   \<and> sExtSoundFontLoadStatus s' = sExtSoundFontLoadStatus s)
             \<and> permanentCache s' = permanentCache s \<and> loadedCache s' = loadedCache s"
    by blast
  with p i show "\<exists>s'. AudioHeap_PopPersistentCache realIndex s tableType = Some s'
               \<and> pc_inv s' \<and> pstack s' = older @ newer
               \<and> discardedFonts s' =
                   discardedFonts s @ (if tableType = FONT_TABLE then [pce_id e] else [])
               \<and> (\<not> is_sentinel_id (pce_id e) \<longrightarrow>
                     AudioApi_GetTableEntryLoadStatus realIndex s' tableType (pce_id e)
                       = Some LOAD_STATUS_NOT_LOADED)
               \<and> (is_sentinel_id (pce_id e) \<longrightarrow>
                     sExtSeqLoadStatus s' = sExtSeqLoadStatus s
                     \<and> sExtSoundFontLoadStatus s' = sExtSoundFontLoadStatus s)
               \<and> permanentCache s' = permanentCache s \<and> loadedCache s' = loadedCache s"
    by blast
qed

lemma three_stacked_inv: "pc_inv three_stacked"
  by (simp add: pc_inv_def three_stacked_def)

lemma three_stacked_stack:
  "pstack three_stacked = [mk_entry SEQUENCE_TABLE 3] @ mk_entry FONT_TABLE 7 # [mk_entry SEQUENCE_TABLE 5]"
  by (simp add: pstack_def three_stacked_def)

lemma three_stacked_pop:
  "AudioHeap_PopPersistentCache identity_index three_stacked FONT_TABLE = Some two_stacked"
  by (simp add: AudioHeap_PopPersistentCache_def three_stacked_def two_stacked_def boot_state_def
      Let_def find_most_recent.simps shift_down.simps mk_entry_def identity_index_def
      AudioApi_SetTableEntryLoadStatus_def FONT_TABLE_def SEQUENCE_TABLE_def
      LOAD_STATUS_NOT_LOADED_def)

theorem pop_persistent_cache_witness:
  "pc_inv three_stacked
   \<and> pstack three_stacked
       = [mk_entry SEQUENCE_TABLE 3, mk_entry FONT_TABLE 7, mk_entry SEQUENCE_TABLE 5]
   \<and> status_slot_ok identity_index three_stacked FONT_TABLE 7
   \<and> AudioHeap_PopPersistentCache identity_index three_stacked FONT_TABLE = Some two_stacked
   \<and> pstack two_stacked = [mk_entry SEQUENCE_TABLE 3, mk_entry SEQUENCE_TABLE 5]
   \<and> discardedFonts two_stacked = discardedFonts three_stacked @ [7]
   \<and> AudioApi_GetTableEntryLoadStatus identity_index two_stacked FONT_TABLE 7
       = Some LOAD_STATUS_NOT_LOADED
   \<and> AudioHeap_PopPersistentCache identity_index three_stacked SAMPLE_TABLE = Some three_stacked"
proof -
  have k: "sint (pce_tableType (mk_entry FONT_TABLE 7)) = sint FONT_TABLE"
    "sint (pce_tableType (mk_entry SEQUENCE_TABLE 5)) \<noteq> sint FONT_TABLE"
    "sint (pce_tableType (mk_entry SEQUENCE_TABLE 3)) \<noteq> sint SAMPLE_TABLE"
    "sint (pce_tableType (mk_entry FONT_TABLE 7)) \<noteq> sint SAMPLE_TABLE"
    "sint (pce_tableType (mk_entry SEQUENCE_TABLE 5)) \<noteq> sint SAMPLE_TABLE"
    by (simp_all add: mk_entry_def FONT_TABLE_def SEQUENCE_TABLE_def SAMPLE_TABLE_def)
  have ns: "\<not> is_sentinel_id (pce_id (mk_entry FONT_TABLE 7))"
    by (simp add: is_sentinel_id_def mk_entry_def)
  have i: "pce_id (mk_entry FONT_TABLE 7) = 7" by (simp add: mk_entry_def)
  have slot: "status_slot_ok identity_index three_stacked FONT_TABLE 7"
    by (simp add: status_slot_ok_def identity_index_def three_stacked_def boot_state_def
        FONT_TABLE_def SEQUENCE_TABLE_def)
  note th = pop_persistent_cache [OF three_stacked_inv, of _ identity_index]
  from th [of FONT_TABLE, THEN conjunct2, rule_format,
      of "[mk_entry SEQUENCE_TABLE 3]" "mk_entry FONT_TABLE 7" "[mk_entry SEQUENCE_TABLE 5]"]
    three_stacked_stack k slot i
  obtain s' where "AudioHeap_PopPersistentCache identity_index three_stacked FONT_TABLE = Some s'"
    and "pstack s' = [mk_entry SEQUENCE_TABLE 3] @ [mk_entry SEQUENCE_TABLE 5]"
    and "discardedFonts s' = discardedFonts three_stacked
             @ (if FONT_TABLE = FONT_TABLE then [pce_id (mk_entry FONT_TABLE 7)] else [])"
    and "\<not> is_sentinel_id (pce_id (mk_entry FONT_TABLE 7)) \<longrightarrow>
              AudioApi_GetTableEntryLoadStatus identity_index s' FONT_TABLE
                (pce_id (mk_entry FONT_TABLE 7)) = Some LOAD_STATUS_NOT_LOADED"
    by auto
  with three_stacked_pop ns i
  have a: "pstack two_stacked = [mk_entry SEQUENCE_TABLE 3, mk_entry SEQUENCE_TABLE 5]
     \<and> discardedFonts two_stacked = discardedFonts three_stacked @ [7]
     \<and> AudioApi_GetTableEntryLoadStatus identity_index two_stacked FONT_TABLE 7
         = Some LOAD_STATUS_NOT_LOADED"
    by simp
  from th [of SAMPLE_TABLE] three_stacked_stack k
  have b: "AudioHeap_PopPersistentCache identity_index three_stacked SAMPLE_TABLE = Some three_stacked"
    by simp
  show ?thesis
    using three_stacked_inv three_stacked_stack three_stacked_pop a b slot by simp
qed

text \<open>
  The claim C7 as first stated promises the reset for every popped entry.  The status setter
  ignores identifiers whose low byte is \<open>0xFE\<close> or \<open>0xFF\<close>: popping the font entry \<open>0xFE\<close>
  removes it from the stack and discards the font, but writes no status; the slot keeps the
  value 2 (complete) and the status reported for the entry is the permanent one.
\<close>

theorem pop_persistent_cache_counterexample:
  "pc_inv sentinel_stacked
   \<and> pstack sentinel_stacked = [mk_entry FONT_TABLE 0xFE]
   \<and> AudioHeap_PopPersistentCache identity_index sentinel_stacked FONT_TABLE = Some sentinel_popped
   \<and> pstack sentinel_popped = []
   \<and> sExtSoundFontLoadStatus sentinel_stacked ! 254 = 2
   \<and> sExtSoundFontLoadStatus sentinel_popped ! 254 = 2
   \<and> AudioApi_GetTableEntryLoadStatus identity_index sentinel_popped FONT_TABLE 0xFE
       = Some LOAD_STATUS_PERMANENT
   \<and> AudioApi_GetTableEntryLoadStatus identity_index sentinel_popped FONT_TABLE 0xFE
       \<noteq> Some LOAD_STATUS_NOT_LOADED"
  by (simp add: pc_inv_def pstack_def sentinel_stacked_def sentinel_popped_def boot_state_def
      AudioHeap_PopPersistentCache_def Let_def find_most_recent.simps shift_down.simps
      mk_entry_def identity_index_def AudioApi_SetTableEntryLoadStatus_def
      AudioApi_GetTableEntryLoadStatus_def FONT_TABLE_def SEQUENCE_TABLE_def
      LOAD_STATUS_NOT_LOADED_def LOAD_STATUS_PERMANENT_def)

section \<open>Results on reference counts and sample copies\<close>

lemma refcounter_dec_untracked: "rc key = None \<Longrightarrow> refcounter_dec rc key = (0, rc)"
  by (simp add: refcounter_dec_def)

lemma refcounter_inc_untracked: "rc key = None \<Longrightarrow> refcounter_inc rc key = (1, rc(key \<mapsto> 1))"
  by (simp add: refcounter_inc_def Let_def domIff)

lemma refcounter_inc_one: "rc key = Some 1 \<Longrightarrow> refcounter_inc rc key = (2, rc(key \<mapsto> 2))"
  by (simp add: refcounter_inc_def Let_def domIff)

lemma refcounter_dec_two: "rc key = Some 2 \<Longrightarrow> refcounter_dec rc key = (1, rc(key \<mapsto> 1))"
  by (simp add: refcounter_dec_def)


lemma free_sample_released:
  assumes "fst (refcounter_dec (refcounter s) sample) = 0" and "sample \<noteq> 0"
    and "mem s sample = Some (SampleBlk smp)"
  shows "\<exists>s'. AudioApi_FreeSample s sample = Some s'
     \<and> mem s' sample = None
     \<and> (loop smp \<noteq> 0 \<longrightarrow> mem s' (loop smp) = None)
     \<and> (book smp \<noteq> 0 \<longrightarrow> mem s' (book smp) = None)
     \<and> (\<forall>a. a \<noteq> sample \<and> \<not> (a = loop smp \<and> loop smp \<noteq> 0)
              \<and> \<not> (a = book smp \<and> book smp \<noteq> 0) \<longrightarrow> mem s' a = mem s a)
     \<and> refcounter s' = snd (refcounter_dec (refcounter s) sample)
     \<and> sampleHashmap s' = sampleHashmap s \<and> alloc_plan s' = alloc_plan s"
  using assms
  by (simp add: AudioApi_FreeSample_def Let_def recomp_free_def)

lemma free_sample_retained:
  assumes "fst (refcounter_dec (refcounter s) sample) > 0" and "sample \<noteq> 0"
  shows "AudioApi_FreeSample s sample = Some (s\<lparr>refcounter := snd (refcounter_dec (refcounter s) sample)\<rparr>)"
  using assms by (simp add: AudioApi_FreeSample_def Let_def)


lemma keeps_trans: "keeps m m1 \<Longrightarrow> keeps m1 m2 \<Longrightarrow> keeps m m2"
  by (auto simp: keeps_def)

lemma keeps_upd: "m a = None \<Longrightarrow> keeps m (m(a \<mapsto> b))"
  by (auto simp: keeps_def)

lemma alloc_result:
  fixes s :: sample_state
  assumes "plan_fresh s" and "recomp_alloc blk s = (a, s1)"
  shows "plan_fresh s1 \<and> refcounter s1 = refcounter s \<and> sampleHashmap s1 = sampleHashmap s
     \<and> (if a = 0 then mem s1 = mem s
         else mem s a = None \<and> mem s1 = (mem s)(a \<mapsto> blk))"
  using assms
  by (cases "alloc_plan s") (auto simp: recomp_alloc_def plan_fresh_def split: if_splits)

lemma store_sample_fresh:
  assumes "plan_fresh s" and "mem s c \<noteq> None"
  shows "plan_fresh (store_sample c smp s)"
  using assms by (auto simp: plan_fresh_def store_sample_def)

lemma copy_region_result:
  assumes "plan_fresh s" and "copy_region s p sizeOf = Some (l, s1)"
  shows "plan_fresh s1 \<and> refcounter s1 = refcounter s \<and> sampleHashmap s1 = sampleHashmap s
     \<and> (if l = 0 then mem s1 = mem s
         else mem s l = None \<and> (\<exists>bs. mem s1 = (mem s)(l \<mapsto> BytesBlk bs)))"
proof -
  from assms(2) obtain n bs where
    a: "recomp_alloc (BytesBlk (take n bs)) s = (l, s1)"
    by (auto simp: copy_region_def Let_def split: option.splits if_splits prod.splits)
  from alloc_result [OF assms(1) a] show ?thesis by auto
qed

lemma finish_copy_result:
  "finish_copy s c hval = (c', s') \<Longrightarrow>
     c' = c \<and> mem s' = mem s \<and> alloc_plan s' = alloc_plan s
     \<and> refcounter s' = (if hval \<noteq> 0 then snd (refcounter_inc (refcounter s) c) else refcounter s)
     \<and> sampleHashmap s' = (if hval \<noteq> 0 then (sampleHashmap s)(hval \<mapsto> c) else sampleHashmap s)"
  by (auto simp: finish_copy_def split: if_splits)

lemma plan_fresh_cong:
  "plan_fresh s \<Longrightarrow> mem s' = mem s \<Longrightarrow> alloc_plan s' = alloc_plan s \<Longrightarrow> plan_fresh s'"
  by (simp add: plan_fresh_def)

lemma copy_book_result:
  assumes fresh: "plan_fresh s" and live: "mem s copy \<noteq> None"
    and cb: "copy_book s src copy cur hval = Some (c, s')" and c: "c \<noteq> 0"
  shows "c = copy \<and> plan_fresh s'
     \<and> refcounter s' = (if hval \<noteq> 0 then snd (refcounter_inc (refcounter s) c) else refcounter s)
     \<and> sampleHashmap s' = (if hval \<noteq> 0 then (sampleHashmap s)(hval \<mapsto> c) else sampleHashmap s)
     \<and> (if book src = 0 then mem s' = mem s
         else \<exists>b bs. b \<noteq> 0 \<and> mem s b = None
                \<and> mem s' = (mem s)(b \<mapsto> BytesBlk bs, copy \<mapsto> SampleBlk (cur\<lparr>book := b\<rparr>)))"
proof (cases "book src = 0")
  case True
  with cb have f: "finish_copy s copy hval = (c, s')" by (simp add: copy_book_def)
  from finish_copy_result [OF f] have e: "c = copy" "mem s' = mem s" "alloc_plan s' = alloc_plan s"
    "refcounter s' = (if hval \<noteq> 0 then snd (refcounter_inc (refcounter s) copy) else refcounter s)"
    "sampleHashmap s' = (if hval \<noteq> 0 then (sampleHashmap s)(hval \<mapsto> copy) else sampleHashmap s)"
    by simp_all
  from plan_fresh_cong [OF fresh e(2,3)] e True show ?thesis by simp
next
  case False
  with cb obtain b s1 where r: "copy_region s (book src) book_size = Some (b, s1)"
    and rest: "(if b = 0 then map_option (Pair 0)
                   (AudioApi_FreeSample (store_sample copy (cur\<lparr>book := b\<rparr>) s1) copy)
               else Some (finish_copy (store_sample copy (cur\<lparr>book := b\<rparr>) s1) copy hval))
              = Some (c, s')"
    by (auto simp: copy_book_def Let_def split: option.splits)
  have b0: "b \<noteq> 0" using rest c by (auto split: if_splits)
  with rest have f: "finish_copy (store_sample copy (cur\<lparr>book := b\<rparr>) s1) copy hval = (c, s')"
    by simp
  from copy_region_result [OF fresh r] b0 obtain bs where
    r1: "plan_fresh s1" "refcounter s1 = refcounter s" "sampleHashmap s1 = sampleHashmap s"
    "mem s b = None" "mem s1 = (mem s)(b \<mapsto> BytesBlk bs)" by auto
  have live1: "mem s1 copy \<noteq> None" using r1 live by auto
  have pf: "plan_fresh (store_sample copy (cur\<lparr>book := b\<rparr>) s1)"
    by (rule store_sample_fresh [OF r1(1) live1])
  let ?s2 = "store_sample copy (cur\<lparr>book := b\<rparr>) s1"
  from finish_copy_result [OF f] have e: "c = copy" "mem s' = mem ?s2" "alloc_plan s' = alloc_plan ?s2"
    "refcounter s' = (if hval \<noteq> 0 then snd (refcounter_inc (refcounter ?s2) copy) else refcounter ?s2)"
    "sampleHashmap s' = (if hval \<noteq> 0 then (sampleHashmap ?s2)(hval \<mapsto> copy) else sampleHashmap ?s2)"
    by simp_all
  have m: "mem s' = (mem s)(b \<mapsto> BytesBlk bs, copy \<mapsto> SampleBlk (cur\<lparr>book := b\<rparr>))"
    using e(2) r1(5) by (simp add: store_sample_def)
  have rc: "refcounter ?s2 = refcounter s" "sampleHashmap ?s2 = sampleHashmap s"
    using r1 by (simp_all add: store_sample_def)
  have "\<exists>b bs. b \<noteq> 0 \<and> mem s b = None
                \<and> mem s' = (mem s)(b \<mapsto> BytesBlk bs, copy \<mapsto> SampleBlk (cur\<lparr>book := b\<rparr>))"
    using b0 r1(4) m by blast
  with plan_fresh_cong [OF pf e(2,3)] e rc False show ?thesis by simp
qed

lemma copy_fresh_result:
  assumes fresh: "plan_fresh s" and cf: "copy_fresh s src hval = Some (c, s')" and c: "c \<noteq> 0"
  shows "copied s s' c \<and> plan_fresh s'
     \<and> refcounter s' = (if hval \<noteq> 0 then snd (refcounter_inc (refcounter s) c) else refcounter s)
     \<and> sampleHashmap s' = (if hval \<noteq> 0 then (sampleHashmap s)(hval \<mapsto> c) else sampleHashmap s)"
proof -
  define copy0 where "copy0 = (if IS_KSEG0 (sampleAddr src)
                   then src\<lparr>s_medium := MEDIUM_CART, unk_bit26 := False, isRelocated := True\<rparr>
                   else src\<lparr>isRelocated := False\<rparr>)"
  have lb0: "loop copy0 = loop src" "book copy0 = book src" by (simp_all add: copy0_def)
  obtain c0 s0 where a: "recomp_alloc (SampleBlk copy0) s = (c0, s0)" by (metis prod.collapse)
  then have fa: "fst (recomp_alloc (SampleBlk copy0) s) = c0" "snd (recomp_alloc (SampleBlk copy0) s) = s0"
    by simp_all
  from cf c have c0: "c0 \<noteq> 0"
    by (auto simp: copy_fresh_def Let_def copy0_def [symmetric] fa split: if_splits)
  from alloc_result [OF fresh a] c0 have a0: "plan_fresh s0" "refcounter s0 = refcounter s"
    "sampleHashmap s0 = sampleHashmap s" "mem s c0 = None" "mem s0 = (mem s)(c0 \<mapsto> SampleBlk copy0)"
    by simp_all
  have live0: "mem s0 c0 \<noteq> None" using a0 by simp
  show ?thesis
  proof (cases "loop src = 0")
    case True
    with cf c0 have cb: "copy_book s0 src c0 copy0 hval = Some (c, s')"
      by (simp add: copy_fresh_def Let_def copy0_def [symmetric] fa)
    note r = copy_book_result [OF a0(1) live0 cb c]
    then have cc: "c = c0" by simp
    show ?thesis
    proof (cases "book src = 0")
      case bt: True
      with r have m: "mem s' = (mem s)(c0 \<mapsto> SampleBlk copy0)" using a0 by simp
      have "copied s s' c"
        unfolding copied_def using a0(4) m cc True bt lb0 by (auto simp: keeps_def)
      with r a0 show ?thesis by simp
    next
      case bf: False
      with r obtain b bs where b: "b \<noteq> 0" "mem s0 b = None"
        "mem s' = (mem s0)(b \<mapsto> BytesBlk bs, c0 \<mapsto> SampleBlk (copy0\<lparr>book := b\<rparr>))" by auto
      have bn: "mem s b = None" "b \<noteq> c0" using b(2) a0(5) by (auto split: if_splits)
      have "copied s s' c"
        unfolding copied_def using a0(4,5) b bn cc True lb0
        by (auto simp: keeps_def intro!: exI [of _ "copy0\<lparr>book := b\<rparr>"])
      with r a0 show ?thesis by simp
    qed
  next
    case False
    with cf c0 obtain l s1 where r: "copy_region s0 (loop src) loop_size = Some (l, s1)"
      and rest: "(if l = 0 then map_option (Pair 0)
                     (AudioApi_FreeSample (store_sample c0 (copy0\<lparr>loop := l\<rparr>) s1) c0)
                  else copy_book (store_sample c0 (copy0\<lparr>loop := l\<rparr>) s1) src c0
                         (copy0\<lparr>loop := l\<rparr>) hval) = Some (c, s')"
      by (auto simp: copy_fresh_def Let_def copy0_def [symmetric] fa split: option.splits
          cong: if_cong)
    have l0: "l \<noteq> 0" using rest c by (auto split: if_splits)
    let ?s2 = "store_sample c0 (copy0\<lparr>loop := l\<rparr>) s1"
    from rest l0 have cb: "copy_book ?s2 src c0 (copy0\<lparr>loop := l\<rparr>) hval = Some (c, s')" by simp
    from copy_region_result [OF a0(1) r] l0 obtain lbs where
      r1: "plan_fresh s1" "refcounter s1 = refcounter s0" "sampleHashmap s1 = sampleHashmap s0"
      "mem s0 l = None" "mem s1 = (mem s0)(l \<mapsto> BytesBlk lbs)" by auto
    have ln: "mem s l = None" "l \<noteq> c0" using r1(4) a0(5) by (auto split: if_splits)
    have live1: "mem s1 c0 \<noteq> None" using r1(5) live0 by auto
    have pf2: "plan_fresh ?s2" by (rule store_sample_fresh [OF r1(1) live1])
    have live2: "mem ?s2 c0 \<noteq> None" by (simp add: store_sample_def)
    have m2: "mem ?s2 = (mem s)(l \<mapsto> BytesBlk lbs, c0 \<mapsto> SampleBlk (copy0\<lparr>loop := l\<rparr>))"
      using r1(5) a0(5) ln by (auto simp: store_sample_def)
    have rc2: "refcounter ?s2 = refcounter s" "sampleHashmap ?s2 = sampleHashmap s"
      using r1 a0 by (simp_all add: store_sample_def)
    note rb = copy_book_result [OF pf2 live2 cb c]
    then have cc: "c = c0" by simp
    show ?thesis
    proof (cases "book src = 0")
      case bt: True
      with rb have m: "mem s' = mem ?s2" by simp
      have "copied s s' c"
        unfolding copied_def using a0(4) m m2 cc bt lb0 ln l0
        by (auto simp: keeps_def intro!: exI [of _ "copy0\<lparr>loop := l\<rparr>"])
      with rb rc2 show ?thesis by simp
    next
      case bf: False
      with rb obtain b bs where b: "b \<noteq> 0" "mem ?s2 b = None"
        "mem s' = (mem ?s2)(b \<mapsto> BytesBlk bs, c0 \<mapsto> SampleBlk (copy0\<lparr>loop := l, book := b\<rparr>))"
        by auto
      have bn: "mem s b = None" "b \<noteq> c0" "b \<noteq> l" using b(2) m2 by (auto split: if_splits)
      have "copied s s' c"
        unfolding copied_def using a0(4) b(1,3) bn m2 cc ln l0
        by (auto simp: keeps_def intro!: exI [of _ "copy0\<lparr>loop := l, book := b\<rparr>"])
      with rb rc2 show ?thesis by simp
    qed
  qed
qed

lemma region_bytes_keeps:
  assumes "keeps (mem s) (mem s1)" and "region_bytes s p f = Some bs"
  shows "region_bytes s1 p f = Some bs"
proof -
  from assms(2) have "mem s p \<noteq> None"
    by (auto simp: region_bytes_def region_size_def split: option.splits)
  with assms(1) have "mem s1 p = mem s p" by (simp add: keeps_def)
  with assms(2) show ?thesis by (simp add: region_bytes_def region_size_def)
qed


lemma copy_sample_plain:
  assumes src: "mem s src = Some (SampleBlk smp)" "src \<noteq> 0"
    and plain: "codec smp \<noteq> CODEC_ADPCM" "codec smp \<noteq> CODEC_SMALL_ADPCM"
    and fresh: "plan_fresh s"
    and cp: "AudioApi_CopySample s src = Some (c, s')" "c \<noteq> 0"
  shows "copied s s' c \<and> plan_fresh s' \<and> refcounter s' = refcounter s
     \<and> sampleHashmap s' = sampleHashmap s"
proof -
  from cp src plain have "copy_fresh s smp 0 = Some (c, s')"
    by (simp add: AudioApi_CopySample_def)
  from copy_fresh_result [OF fresh this cp(2)] show ?thesis by simp
qed

lemma copy_sample_zero_hash:
  assumes src: "mem s src = Some (SampleBlk smp)" "src \<noteq> 0"
    and hash: "AudioApi_HashSample s src = Some 0" and no0: "sampleHashmap s 0 = None"
    and fresh: "plan_fresh s"
    and cp: "AudioApi_CopySample s src = Some (c, s')" "c \<noteq> 0"
  shows "copied s s' c \<and> plan_fresh s' \<and> refcounter s' = refcounter s
     \<and> sampleHashmap s' = sampleHashmap s"
proof -
  from cp src hash no0 have "copy_fresh s smp 0 = Some (c, s')"
    by (simp add: AudioApi_CopySample_def split: if_splits)
  from copy_fresh_result [OF fresh this cp(2)] show ?thesis by simp
qed


lemma copied_then_freed:
  assumes cp: "copied s s1 c" and c: "c \<noteq> 0"
    and z: "fst (refcounter_dec (refcounter s1) c) = 0"
  shows "\<exists>s4. AudioApi_FreeSample s1 c = Some s4 \<and> mem s4 = mem s
     \<and> refcounter s4 = snd (refcounter_dec (refcounter s1) c)
     \<and> sampleHashmap s4 = sampleHashmap s1"
proof -
  from cp obtain smp where m: "mem s1 c = Some (SampleBlk smp)"
    and l: "loop smp \<noteq> 0 \<longrightarrow> mem s (loop smp) = None"
    and b: "book smp \<noteq> 0 \<longrightarrow> mem s (book smp) = None"
    and n: "\<forall>a. mem s a = None \<and> a \<noteq> c \<and> \<not> (a = loop smp \<and> loop smp \<noteq> 0)
                  \<and> \<not> (a = book smp \<and> book smp \<noteq> 0) \<longrightarrow> mem s1 a = None"
    and k: "keeps (mem s) (mem s1)" and cn: "mem s c = None"
    by (auto simp: copied_def)
  from free_sample_released [OF z c m] obtain s4 where
    f: "AudioApi_FreeSample s1 c = Some s4" and f1: "mem s4 c = None"
    and f2: "loop smp \<noteq> 0 \<longrightarrow> mem s4 (loop smp) = None"
    and f3: "book smp \<noteq> 0 \<longrightarrow> mem s4 (book smp) = None"
    and f4: "\<forall>a. a \<noteq> c \<and> \<not> (a = loop smp \<and> loop smp \<noteq> 0)
              \<and> \<not> (a = book smp \<and> book smp \<noteq> 0) \<longrightarrow> mem s4 a = mem s1 a"
    and f5: "refcounter s4 = snd (refcounter_dec (refcounter s1) c)"
      "sampleHashmap s4 = sampleHashmap s1"
    by blast
  have "mem s4 a = mem s a" for a
  proof (cases "a = c \<or> (a = loop smp \<and> loop smp \<noteq> 0) \<or> (a = book smp \<and> book smp \<noteq> 0)")
    case True
    then show ?thesis using f1 f2 f3 cn l b by auto
  next
    case False
    then have e: "mem s4 a = mem s1 a" using f4 by blast
    show ?thesis
    proof (cases "mem s a")
      case None
      with n False have "mem s1 a = None" by blast
      with e None show ?thesis by simp
    next
      case (Some x)
      with k have "mem s1 a = mem s a" by (simp add: keeps_def)
      with e show ?thesis by simp
    qed
  qed
  then have "mem s4 = mem s" by (rule ext)
  with f f5 show ?thesis by blast
qed

text \<open>
  Claim C10.  Decrementing a pointer that has no entry in the store returns 0 and leaves the
  store as it is; incrementing it creates the entry with count 1.  Hence the first
  \<open>AudioApi_FreeSample\<close> of an untracked sample releases the sample, its loop and its book.
  A successful \<open>AudioApi_CopySample\<close> of a sample whose codec is not ADPCM, or whose hash is
  0, registers nothing (reference counter and hash map unchanged), and the first free of
  the returned handle gives back the memory as it was before the copy.
\<close>

theorem untracked_free_releases:
  "(rc key = None \<longrightarrow>
      refcounter_dec rc key = (0, rc) \<and> refcounter_inc rc key = (1, rc(key \<mapsto> 1)))
   \<and> (refcounter s sample = None \<and> sample \<noteq> 0 \<and> mem s sample = Some (SampleBlk smp) \<longrightarrow>
        (\<exists>s'. AudioApi_FreeSample s sample = Some s'
           \<and> mem s' sample = None
           \<and> (loop smp \<noteq> 0 \<longrightarrow> mem s' (loop smp) = None)
           \<and> (book smp \<noteq> 0 \<longrightarrow> mem s' (book smp) = None)
           \<and> refcounter s' = refcounter s \<and> sampleHashmap s' = sampleHashmap s))
   \<and> (mem s src = Some (SampleBlk srcSmp) \<and> src \<noteq> 0 \<and> plan_fresh s
        \<and> (codec srcSmp \<noteq> CODEC_ADPCM \<and> codec srcSmp \<noteq> CODEC_SMALL_ADPCM
             \<or> AudioApi_HashSample s src = Some 0 \<and> sampleHashmap s 0 = None)
        \<and> AudioApi_CopySample s src = Some (c, s1) \<and> c \<noteq> 0 \<and> refcounter s c = None \<longrightarrow>
        refcounter s1 = refcounter s \<and> sampleHashmap s1 = sampleHashmap s
        \<and> (\<exists>s2. AudioApi_FreeSample s1 c = Some s2 \<and> mem s2 = mem s
               \<and> refcounter s2 = refcounter s))"
proof (intro conjI impI)
  assume "rc key = None"
  then show "refcounter_dec rc key = (0, rc)" by (rule refcounter_dec_untracked)
next
  assume "rc key = None"
  then show "refcounter_inc rc key = (1, rc(key \<mapsto> 1))" by (rule refcounter_inc_untracked)
next
  assume h: "refcounter s sample = None \<and> sample \<noteq> 0 \<and> mem s sample = Some (SampleBlk smp)"
  then have z: "fst (refcounter_dec (refcounter s) sample) = 0"
    by (simp add: refcounter_dec_untracked)
  from free_sample_released [OF z] h
  show "\<exists>s'. AudioApi_FreeSample s sample = Some s'
           \<and> mem s' sample = None
           \<and> (loop smp \<noteq> 0 \<longrightarrow> mem s' (loop smp) = None)
           \<and> (book smp \<noteq> 0 \<longrightarrow> mem s' (book smp) = None)
           \<and> refcounter s' = refcounter s \<and> sampleHashmap s' = sampleHashmap s"
    by (auto simp: refcounter_dec_untracked)
next
  assume h: "mem s src = Some (SampleBlk srcSmp) \<and> src \<noteq> 0 \<and> plan_fresh s
        \<and> (codec srcSmp \<noteq> CODEC_ADPCM \<and> codec srcSmp \<noteq> CODEC_SMALL_ADPCM
             \<or> AudioApi_HashSample s src = Some 0 \<and> sampleHashmap s 0 = None)
        \<and> AudioApi_CopySample s src = Some (c, s1) \<and> c \<noteq> 0 \<and> refcounter s c = None"
  then have r: "copied s s1 c \<and> plan_fresh s1 \<and> refcounter s1 = refcounter s
     \<and> sampleHashmap s1 = sampleHashmap s"
    using copy_sample_plain [of s src srcSmp c s1] copy_sample_zero_hash [of s src srcSmp c s1]
    by blast
  then show "refcounter s1 = refcounter s" by simp
  from r show "sampleHashmap s1 = sampleHashmap s" by simp
  from r h have z: "fst (refcounter_dec (refcounter s1) c) = 0"
    by (simp add: refcounter_dec_untracked)
  from copied_then_freed [OF _ _ z] r h
  show "\<exists>s2. AudioApi_FreeSample s1 c = Some s2 \<and> mem s2 = mem s \<and> refcounter s2 = refcounter s"
    by (auto simp: refcounter_dec_untracked)
qed

lemma loop_bytes_size: "loop_size adpcm_loop_bytes = Some 16" "length adpcm_loop_bytes = 16"
  by code_simp+

lemma book_bytes_size: "book_size adpcm_book_bytes = Some 40" "length adpcm_book_bytes = 40"
  by code_simp+

lemma loop_region:
  "mem s p = Some (BytesBlk adpcm_loop_bytes) \<Longrightarrow> region_bytes s p loop_size = Some adpcm_loop_bytes"
  by (simp add: region_bytes_def region_size_def loop_bytes_size)

lemma book_region:
  "mem s p = Some (BytesBlk adpcm_book_bytes) \<Longrightarrow> region_bytes s p book_size = Some adpcm_book_bytes"
  by (simp add: region_bytes_def region_size_def book_bytes_size)


lemma nonzero_hash_bytes:
  "fnv_32a_buf adpcm_book_bytes
     (fnv_32a_buf adpcm_loop_bytes
        (fnv_32a_buf (sample_header_bytes (adpcm_sample 0x80400000)) FNV1_32A_INIT)) = 0xA4999EE5"
  by code_simp

lemma hash_sample_eval:
  assumes "mem s p = Some (SampleBlk smp)" and "p \<noteq> 0" and "loop smp \<noteq> 0" and "book smp \<noteq> 0"
    and "region_bytes s (loop smp) loop_size = Some lb"
    and "region_bytes s (book smp) book_size = Some bb"
  shows "AudioApi_HashSample s p =
     Some (fnv_32a_buf bb (fnv_32a_buf lb (fnv_32a_buf (sample_header_bytes smp) FNV1_32A_INIT)))"
  using assms by (simp add: AudioApi_HashSample_def Let_def)


lemma adpcm_sample_fields:
  "loop (adpcm_sample addr) = 0x80300010" "book (adpcm_sample addr) = 0x80300040"
  "codec (adpcm_sample addr) = CODEC_ADPCM" "sampleAddr (adpcm_sample addr) = addr"
  by (simp_all add: adpcm_sample_def)


lemma region_bytes_size:
  assumes "region_bytes s p f = Some bs"
  shows "\<exists>n full. region_size s p f = Some (n, full) \<and> n \<le> length full \<and> take n full = bs"
  using assms by (auto simp: region_bytes_def split: option.splits if_splits)

lemma copy_region_success:
  assumes r: "region_bytes s p f = Some bs" and plan: "alloc_plan s = a # rest" and a: "a \<noteq> 0"
  shows "copy_region s p f
       = Some (a, s\<lparr>mem := (mem s)(a \<mapsto> BytesBlk bs), alloc_plan := rest\<rparr>)"
proof -
  from region_bytes_size [OF r] obtain n full where
    "region_size s p f = Some (n, full)" "n \<le> length full" "take n full = bs" by blast
  then show ?thesis
    using plan a by (simp add: copy_region_def recomp_alloc_def Let_def)
qed

lemma copy_fresh_success:
  assumes plan: "alloc_plan s = a1 # a2 # a3 # rest" and nz: "a1 \<noteq> 0" "a2 \<noteq> 0" "a3 \<noteq> 0"
    and fresh: "plan_fresh s"
    and lb: "loop src \<noteq> 0" "book src \<noteq> 0"
    and rl: "region_bytes s (loop src) loop_size = Some lbytes"
    and rb: "region_bytes s (book src) book_size = Some bbytes"
  shows "\<exists>s'. copy_fresh s src hval = Some (a1, s') \<and> alloc_plan s' = rest"
proof -
  define copy0 where "copy0 = (if IS_KSEG0 (sampleAddr src)
                   then src\<lparr>s_medium := MEDIUM_CART, unk_bit26 := False, isRelocated := True\<rparr>
                   else src\<lparr>isRelocated := False\<rparr>)"
  define s0 where "s0 = s\<lparr>mem := (mem s)(a1 \<mapsto> SampleBlk copy0), alloc_plan := a2 # a3 # rest\<rparr>"
  have a: "recomp_alloc (SampleBlk copy0) s = (a1, s0)"
    using plan nz by (simp add: recomp_alloc_def s0_def)
  from fresh plan nz have f1: "mem s a1 = None" by (simp add: plan_fresh_def)
  have k0: "keeps (mem s) (mem s0)" using f1 by (simp add: s0_def keeps_upd)
  have rl0: "region_bytes s0 (loop src) loop_size = Some lbytes"
    by (rule region_bytes_keeps [OF k0 rl])
  have p0: "alloc_plan s0 = a2 # a3 # rest" by (simp add: s0_def)
  define s1 where "s1 = s0\<lparr>mem := (mem s0)(a2 \<mapsto> BytesBlk lbytes), alloc_plan := a3 # rest\<rparr>"
  have cr1: "copy_region s0 (loop src) loop_size = Some (a2, s1)"
    unfolding s1_def by (rule copy_region_success [OF rl0 p0 nz(2)])
  define s2 where "s2 = store_sample a1 (copy0\<lparr>loop := a2\<rparr>) s1"
  from alloc_result [OF fresh a] nz have pf0: "plan_fresh s0" by simp
  from pf0 p0 nz have f2: "mem s0 a2 = None" by (simp add: plan_fresh_def)
  have f2s: "mem s a2 = None" using f2 by (auto simp: s0_def split: if_splits)
  have a12: "a1 \<noteq> a2" using f2 by (auto simp: s0_def split: if_splits)
  have k2: "keeps (mem s) (mem s2)"
    using f1 f2s a12 by (auto simp: s2_def s1_def s0_def store_sample_def keeps_def)
  have rb2: "region_bytes s2 (book src) book_size = Some bbytes"
    by (rule region_bytes_keeps [OF k2 rb])
  have p2: "alloc_plan s2 = a3 # rest" by (simp add: s2_def s1_def store_sample_def)
  define s3 where "s3 = s2\<lparr>mem := (mem s2)(a3 \<mapsto> BytesBlk bbytes), alloc_plan := rest\<rparr>"
  have cr2: "copy_region s2 (book src) book_size = Some (a3, s3)"
    unfolding s3_def by (rule copy_region_success [OF rb2 p2 nz(3)])
  define s4 where "s4 = store_sample a1 (copy0\<lparr>loop := a2, book := a3\<rparr>) s3"
  have cb: "copy_book s2 src a1 (copy0\<lparr>loop := a2\<rparr>) hval = Some (finish_copy s4 a1 hval)"
    using lb(2) cr2 nz(3) by (simp add: copy_book_def Let_def s4_def)
  have "copy_fresh s src hval = Some (finish_copy s4 a1 hval)"
    using a nz lb(1) cr1 cb
    by (simp add: copy_fresh_def Let_def copy0_def [symmetric] s2_def [symmetric])
  moreover have "fst (finish_copy s4 a1 hval) = a1"
    "alloc_plan (snd (finish_copy s4 a1 hval)) = rest"
    by (simp_all add: finish_copy_def s4_def s3_def store_sample_def)
  ultimately show ?thesis by (metis prod.collapse)
qed

lemma copy_fresh_success_bare:
  assumes "alloc_plan s = a1 # rest" and "a1 \<noteq> 0" and "loop src = 0" and "book src = 0"
  shows "\<exists>s'. copy_fresh s src hval = Some (a1, s') \<and> alloc_plan s' = rest"
  using assms
  by (simp add: copy_fresh_def copy_book_def finish_copy_def recomp_alloc_def Let_def)





















lemma two_sample_fresh: "plan_fresh two_sample_heap"
  by (simp add: plan_fresh_def two_sample_heap_def)

lemma two_sample_mem:
  "mem two_sample_heap 0x80300000 = Some (SampleBlk (adpcm_sample 0x80400000))"
  "mem two_sample_heap 0x80300010 = Some (BytesBlk adpcm_loop_bytes)"
  "mem two_sample_heap 0x80300040 = Some (BytesBlk adpcm_book_bytes)"
  "mem two_sample_heap 0x80300080 = Some (SampleBlk plain_sample)"
  "alloc_plan two_sample_heap
     = [0x81000000, 0x81000010, 0x81000040, 0x81000100, 0x81000110, 0x81000140]"
  "sampleHashmap two_sample_heap = Map.empty" "refcounter two_sample_heap = Map.empty"
  by (simp_all add: two_sample_heap_def)

lemma two_sample_hash:
  "AudioApi_HashSample two_sample_heap 0x80300000 = Some 0xA4999EE5"
proof -
  have "AudioApi_HashSample two_sample_heap 0x80300000 =
     Some (fnv_32a_buf adpcm_book_bytes
            (fnv_32a_buf adpcm_loop_bytes
              (fnv_32a_buf (sample_header_bytes (adpcm_sample 0x80400000)) FNV1_32A_INIT)))"
    by (rule hash_sample_eval)
       (simp_all add: two_sample_mem adpcm_sample_fields loop_region book_region)
  then show ?thesis by (simp only: nonzero_hash_bytes)
qed

lemma two_sample_first_copy:
  "\<exists>s1. AudioApi_CopySample two_sample_heap 0x80300000 = Some (0x81000000, s1)"
proof -
  have "\<exists>s'. copy_fresh two_sample_heap (adpcm_sample 0x80400000) 0xA4999EE5 = Some (0x81000000, s')
          \<and> alloc_plan s' = [0x81000100, 0x81000110, 0x81000140]"
    by (rule copy_fresh_success [where lbytes = adpcm_loop_bytes and bbytes = adpcm_book_bytes
          and ?a2.0 = "0x81000010" and ?a3.0 = "0x81000040"])
       (simp_all add: two_sample_mem two_sample_fresh adpcm_sample_fields loop_region book_region)
  then show ?thesis
    by (auto simp: AudioApi_CopySample_def two_sample_mem two_sample_hash adpcm_sample_fields)
qed




lemma plain_sample_fields:
  "codec plain_sample \<noteq> CODEC_ADPCM" "codec plain_sample \<noteq> CODEC_SMALL_ADPCM"
  "loop plain_sample = 0" "book plain_sample = 0"
  by (simp_all add: plain_sample_def CODEC_S16_def CODEC_ADPCM_def CODEC_SMALL_ADPCM_def)

theorem untracked_free_releases_witness:
  "refcounter_dec Map.empty 0x81000000 = (0, Map.empty)
   \<and> refcounter_inc Map.empty 0x81000000 = (1, [0x81000000 \<mapsto> 1])
   \<and> (\<exists>s'. AudioApi_FreeSample two_sample_heap 0x80300080 = Some s'
          \<and> mem s' 0x80300080 = None)
   \<and> (\<exists>t1 t2. AudioApi_CopySample two_sample_heap 0x80300080 = Some (0x81000000, t1)
          \<and> refcounter t1 = Map.empty \<and> sampleHashmap t1 = Map.empty
          \<and> AudioApi_FreeSample t1 0x81000000 = Some t2 \<and> mem t2 = mem two_sample_heap)"
proof -
  have "\<exists>s'. copy_fresh two_sample_heap plain_sample 0 = Some (0x81000000, s')
          \<and> alloc_plan s' = [0x81000010, 0x81000040, 0x81000100, 0x81000110, 0x81000140]"
    by (rule copy_fresh_success_bare) (simp_all add: two_sample_mem plain_sample_fields)
  then obtain t1 where c: "AudioApi_CopySample two_sample_heap 0x80300080 = Some (0x81000000, t1)"
    by (auto simp: AudioApi_CopySample_def two_sample_mem plain_sample_fields)
  note th = untracked_free_releases [of Map.empty "0x81000000" two_sample_heap "0x80300080"
      plain_sample "0x80300080" plain_sample "0x81000000" t1]
  from th have a: "refcounter_dec Map.empty 0x81000000 = (0, Map.empty)
      \<and> refcounter_inc Map.empty 0x81000000 = (1, [0x81000000 \<mapsto> 1])"
    by simp
  from th have b: "\<exists>s'. AudioApi_FreeSample two_sample_heap 0x80300080 = Some s'
          \<and> mem s' 0x80300080 = None"
    by (auto simp: two_sample_mem)
  from th c have d: "refcounter t1 = Map.empty \<and> sampleHashmap t1 = Map.empty
      \<and> (\<exists>t2. AudioApi_FreeSample t1 0x81000000 = Some t2 \<and> mem t2 = mem two_sample_heap)"
    using two_sample_fresh by (auto simp: two_sample_mem plain_sample_fields)
  from a b c d show ?thesis by blast
qed

section \<open>Results on table growth\<close>

lemma alloc_fails:
  assumes "\<not> alloc_ok h"
  shows "recomp_alloc blk h = (0, h\<lparr>alloc_plan := tl (alloc_plan h)\<rparr>)"
  using assms by (cases "alloc_plan h") (auto simp: recomp_alloc_def alloc_ok_def)

lemma alloc_succeeds:
  assumes "alloc_ok h"
  shows "recomp_alloc blk h
     = (hd (alloc_plan h),
        h\<lparr>mem := (mem h)(hd (alloc_plan h) \<mapsto> blk), alloc_plan := tl (alloc_plan h)\<rparr>)"
    and "hd (alloc_plan h) \<noteq> 0"
  using assms by (cases "alloc_plan h"; auto simp: recomp_alloc_def alloc_ok_def)+

lemma alloc_step:
  assumes "plan_fresh h" and "alloc_ok h"
  shows "mem h (hd (alloc_plan h)) = None"
    and "plan_fresh (h\<lparr>mem := (mem h)(hd (alloc_plan h) \<mapsto> blk),
                        alloc_plan := tl (alloc_plan h)\<rparr>)"
  using assms by (cases "alloc_plan h"; auto simp: plan_fresh_def alloc_ok_def)+

lemma write_bytes_length:
  "write_bytes buf off bs = Some buf' \<Longrightarrow> length buf' = length buf"
  by (auto simp: write_bytes_def split: if_splits)

lemma write_bytes_some:
  "off + length bs \<le> length buf \<Longrightarrow> \<exists>buf'. write_bytes buf off bs = Some buf'"
  by (simp add: write_bytes_def)

lemma rebuild_step_ok:
  assumes "font_table_ok oc tbl" and "oc \<le> nc" and "i < nc" and "length new = 7 * nc"
  shows "\<exists>new'. rebuild_step (Some tbl) oc nc i new = Some new' \<and> length new' = 7 * nc"
proof -
  have "2 * i + length (be16 (of_nat (2 * nc + i * (MAX_FONTS_PER_SEQUENCE + 1)))) \<le> length new"
    using assms(3,4) by (simp add: be16_def)
  then obtain new1 where
    w1: "write_bytes new (2 * i) (be16 (of_nat (2 * nc + i * (MAX_FONTS_PER_SEQUENCE + 1))))
         = Some new1"
    using write_bytes_some by blast
  then have l1: "length new1 = 7 * nc" using write_bytes_length assms(4) by metis
  show ?thesis
  proof (cases "i < oc")
    case False
    then show ?thesis using w1 l1 by (simp add: rebuild_step_def)
  next
    case True
    with assms(1) have "font_list_ok tbl i" by (simp add: font_table_ok_def)
    then obtain index where r: "read_u16 tbl i = Some index" and b: "index < length tbl"
      and n: "unat (tbl ! index) \<le> 4" and e: "index + unat (tbl ! index) + 1 \<le> length tbl"
      by (auto simp: font_list_ok_def MAX_FONTS_PER_SEQUENCE_def split: option.splits)
    have r1: "read_bytes tbl index 1 = Some (take 1 (drop index tbl))"
      using b by (simp add: read_bytes_def)
    have h1: "hd (take 1 (drop index tbl)) = tbl ! index"
      using b by (simp add: hd_drop_conv_nth)
    define bs where "bs = take (unat (tbl ! index) + 1) (drop index tbl)"
    have r2: "read_bytes tbl index (unat (tbl ! index) + 1) = Some bs"
      using e by (simp add: read_bytes_def bs_def)
    have lb: "length bs \<le> 5" using n by (simp add: bs_def)
    have "2 * nc + i * 5 + length bs \<le> length new1"
      using lb l1 assms(3) by simp
    then obtain new2 where w2: "write_bytes new1 (2 * nc + i * 5) bs = Some new2"
      using write_bytes_some by blast
    then have "length new2 = 7 * nc" using write_bytes_length l1 by metis
    with w1 r r1 h1 r2 w2 True show ?thesis
      by (simp add: rebuild_step_def MAX_FONTS_PER_SEQUENCE_def)
  qed
qed

lemma rebuild_loop_ok:
  assumes "font_table_ok oc tbl" and "oc \<le> nc"
  shows "(\<forall>i \<in> set ids. i < nc) \<Longrightarrow> length new = 7 * nc
     \<Longrightarrow> \<exists>new'. rebuild_loop (Some tbl) oc nc ids new = Some new' \<and> length new' = 7 * nc"
proof (induction ids arbitrary: new)
  case Nil
  then show ?case by simp
next
  case (Cons i ids)
  then obtain new1 where "rebuild_step (Some tbl) oc nc i new = Some new1"
    and "length new1 = 7 * nc"
    using rebuild_step_ok [OF assms, of i new] by auto
  with Cons show ?case by simp
qed

lemma grow_table_fail:
  "\<not> alloc_ok h \<Longrightarrow> grow_table old oc nc h = Some (0, h\<lparr>alloc_plan := tl (alloc_plan h)\<rparr>)"
  by (simp add: grow_table_def alloc_fails)

lemma grow_bytes_fail:
  "\<not> alloc_ok h \<Longrightarrow> grow_bytes old oc nc h = Some (0, h\<lparr>alloc_plan := tl (alloc_plan h)\<rparr>)"
  by (simp add: grow_bytes_def alloc_fails)

lemma rebuild_fail:
  "\<not> alloc_ok st \<Longrightarrow> AudioApi_RebuildSequenceFontTable st oc nc
     = Some (0, st\<lparr>alloc_plan := tl (alloc_plan st)\<rparr>)"
  by (simp add: AudioApi_RebuildSequenceFontTable_def alloc_fails Let_def)

lemma grow_table_ok:
  assumes "plan_fresh h" and "alloc_ok h" and "table_at h old = Some t"
    and "oc \<le> nc" and "oc \<le> length (tbl_entries t)"
  shows "grow_table old oc nc h
     = Some (hd (alloc_plan h),
         h\<lparr>mem := (mem h)(hd (alloc_plan h) \<mapsto> TableBlk (the (grown_table t oc nc))),
           alloc_plan := tl (alloc_plan h)\<rparr>)"
proof -
  have n: "mem h (hd (alloc_plan h)) = None" using alloc_step(1) assms(1,2) by blast
  with assms(3) have d: "hd (alloc_plan h) \<noteq> old" by (auto simp: table_at_def)
  have g: "grown_table t oc nc \<noteq> None" using assms(4,5) by (simp add: grown_table_def)
  show ?thesis
    using d g assms(3) alloc_succeeds [OF assms(2)]
    by (auto simp: grow_table_def table_at_def store_block_def)
qed

lemma grow_bytes_ok:
  assumes "plan_fresh h" and "alloc_ok h" and "bytes_at h old = Some bs"
    and "oc \<le> nc" and "oc \<le> length bs"
  shows "grow_bytes old oc nc h
     = Some (hd (alloc_plan h),
         h\<lparr>mem := (mem h)(hd (alloc_plan h) \<mapsto> BytesBlk (the (grown_bytes bs oc nc))),
           alloc_plan := tl (alloc_plan h)\<rparr>)"
proof -
  have n: "mem h (hd (alloc_plan h)) = None" using alloc_step(1) assms(1,2) by blast
  with assms(3) have d: "hd (alloc_plan h) \<noteq> old" by (auto simp: bytes_at_def)
  have g: "grown_bytes bs oc nc \<noteq> None" using assms(4,5) by (simp add: grown_bytes_def)
  show ?thesis
    using d g assms(3) alloc_succeeds [OF assms(2)]
    by (auto simp: grow_bytes_def bytes_at_def store_block_def)
qed

lemma rebuild_ok:
  assumes "plan_fresh st" and "alloc_ok st"
    and "bytes_at st (gAudioCtx_sequenceFontTable st) = Some tbl"
    and "font_table_ok (unat oc) tbl" and "unat oc \<le> unat nc"
  shows "\<exists>new. AudioApi_RebuildSequenceFontTable st oc nc
     = Some (hd (alloc_plan st),
         st\<lparr>mem := (mem st)(hd (alloc_plan st) \<mapsto> BytesBlk new),
            alloc_plan := tl (alloc_plan st)\<rparr>)
       \<and> length new = 7 * unat nc"
proof -
  have n: "mem st (hd (alloc_plan st)) = None" using alloc_step(1) assms(1,2) by blast
  with assms(3) have d: "hd (alloc_plan st) \<noteq> gAudioCtx_sequenceFontTable st"
    by (auto simp: bytes_at_def)
  obtain new where l: "rebuild_loop (Some tbl) (unat oc) (unat nc) [0 ..< unat nc]
        (replicate (7 * unat nc) 0) = Some new" and ln: "length new = 7 * unat nc"
    using rebuild_loop_ok [OF assms(4,5), of "[0 ..< unat nc]" "replicate (7 * unat nc) 0"]
    by auto
  have "AudioApi_RebuildSequenceFontTable st oc nc
     = Some (hd (alloc_plan st),
         st\<lparr>mem := (mem st)(hd (alloc_plan st) \<mapsto> BytesBlk new),
            alloc_plan := tl (alloc_plan st)\<rparr>)"
    using d l assms(3) alloc_succeeds [OF assms(2)]
    by (auto simp: AudioApi_RebuildSequenceFontTable_def bytes_at_def store_block_def
        MAX_FONTS_PER_SEQUENCE_def Let_def)
  with ln show ?thesis by blast
qed

lemma grow_sequence_fails:
  assumes f: "plan_fresh st" and ok: "seq_tables_ok st"
    and fl: "some_alloc_fails 4 (alloc_plan st)"
  shows "\<exists>k\<le>4. AudioApi_GrowSequenceTables isRecompAlloc st
           = Some (False, st\<lparr>alloc_plan := drop k (alloc_plan st)\<rparr>)"
proof -
  define oc where "oc = sequenceTableCapacity st"
  define nc :: u16 where "nc = push_bit 1 oc"
  define p where "p = alloc_plan st"
  from ok obtain t tbl flags status where
    t: "table_at st (gAudioCtx_sequenceTable st) = Some t" "unat oc \<le> length (tbl_entries t)"
    and tbl: "bytes_at st (gAudioCtx_sequenceFontTable st) = Some tbl" "font_table_ok (unat oc) tbl"
    and flags: "bytes_at st (sExtSeqFlags st) = Some flags" "unat oc \<le> length flags"
    and status: "bytes_at st (sExtSeqLoadStatus_ptr st) = Some status" "unat oc \<le> length status"
    and small: "unat oc < 32768"
    by (auto simp: seq_tables_ok_def oc_def split: option.splits)
  have c: "unat nc = 2 * unat oc" unfolding nc_def
    using double_capacity small by blast
  then have le: "unat oc \<le> unat nc" by simp
  have d: "tl p = drop 1 p" "tl (tl p) = drop 2 p" "tl (tl (tl p)) = drop 3 p"
    "tl (tl (tl (tl p))) = drop 4 p"
    by (simp_all add: drop_Suc numeral_2_eq_2 numeral_3_eq_3 eval_nat_numeral drop_tl)
  note G = AudioApi_GrowSequenceTables_def Let_def oc_def [symmetric] nc_def [symmetric]
  show ?thesis
  proof (cases "alloc_ok st")
    case False
    then have "AudioApi_GrowSequenceTables isRecompAlloc st
        = Some (False, st\<lparr>alloc_plan := tl p\<rparr>)"
      unfolding G by (simp add: grow_table_fail free_new_def p_def [symmetric])
    then have "AudioApi_GrowSequenceTables isRecompAlloc st
        = Some (False, st\<lparr>alloc_plan := drop 1 p\<rparr>)" by (simp only: d(1))
    then show ?thesis unfolding p_def by (intro exI [of _ 1]) simp
  next
    case a1: True
    define b1 where "b1 = TableBlk (the (grown_table t (unat oc) (unat nc)))"
    define st1 where "st1 = st\<lparr>mem := (mem st)(hd p \<mapsto> b1), alloc_plan := tl p\<rparr>"
    have g1: "grow_table (gAudioCtx_sequenceTable st) (unat oc) (unat nc) st = Some (hd p, st1)"
      using grow_table_ok [OF f a1 t(1) le t(2)] by (simp add: st1_def b1_def p_def)
    have n1: "hd p \<noteq> 0" "mem st (hd p) = None"
      using alloc_succeeds(2) [OF a1] alloc_step(1) [OF f a1] by (simp_all add: p_def)
    have f1: "plan_fresh st1" unfolding st1_def p_def using alloc_step(2) [OF f a1] .
    have p1: "alloc_plan st1 = tl p" by (simp add: st1_def)
    have tbl1: "bytes_at st1 (gAudioCtx_sequenceFontTable st1) = Some tbl"
      using tbl(1) n1(2) by (auto simp: st1_def bytes_at_def split: option.splits)
    show ?thesis
    proof (cases "alloc_ok st1")
      case False
      have "(mem st)(hd p := None) = mem st" using n1(2) by (auto simp: fun_eq_iff)
      then have "AudioApi_GrowSequenceTables isRecompAlloc st
          = Some (False, st\<lparr>alloc_plan := tl (tl p)\<rparr>)"
        using n1(1) False
        unfolding G
        by (simp add: g1 rebuild_fail free_new_def recomp_free_def p1) (simp add: st1_def)
      then have "AudioApi_GrowSequenceTables isRecompAlloc st
        = Some (False, st\<lparr>alloc_plan := drop 2 p\<rparr>)" by (simp only: d(2))
    then show ?thesis unfolding p_def by (intro exI [of _ 2]) simp
    next
      case a2: True
      obtain new where r: "AudioApi_RebuildSequenceFontTable st1 oc nc
          = Some (hd (tl p), st1\<lparr>mem := (mem st1)(hd (tl p) \<mapsto> BytesBlk new),
                                 alloc_plan := tl (tl p)\<rparr>)"
        using rebuild_ok [OF f1 a2 tbl1 tbl(2) le] by (auto simp: p1)
      define st2 where "st2 = st1\<lparr>mem := (mem st1)(hd (tl p) \<mapsto> BytesBlk new),
                                 alloc_plan := tl (tl p)\<rparr>"
      have n2: "hd (tl p) \<noteq> 0" "mem st1 (hd (tl p)) = None"
        using alloc_succeeds(2) [OF a2] alloc_step(1) [OF f1 a2] by (simp_all add: p1)
      have f2: "plan_fresh st2" unfolding st2_def using alloc_step(2) [OF f1 a2] by (simp add: p1)
      have p2: "alloc_plan st2 = tl (tl p)" by (simp add: st2_def)
      have m2: "mem st (hd (tl p)) = None" "hd (tl p) \<noteq> hd p"
        using n2(2) by (auto simp: st1_def split: if_splits)
      have flags2: "bytes_at st2 (sExtSeqFlags st2) = Some flags"
        using flags(1) n1(2) m2(1)
        by (auto simp: st2_def st1_def bytes_at_def split: option.splits)
      show ?thesis
      proof (cases "alloc_ok st2")
        case False
        have "(mem st)(hd p := None, hd (tl p) := None) = mem st"
          using n1(2) m2(1) by (auto simp: fun_eq_iff)
        then have "free_new [hd p, hd (tl p), 0, 0] (st2\<lparr>alloc_plan := tl (alloc_plan st2)\<rparr>)
            = st\<lparr>alloc_plan := tl (tl (tl p))\<rparr>"
          using n1(1) n2(1) m2(2)
          by (simp add: free_new_def recomp_free_def p2 st2_def st1_def)
        then have "AudioApi_GrowSequenceTables isRecompAlloc st
            = Some (False, st\<lparr>alloc_plan := tl (tl (tl p))\<rparr>)"
          using n1(1) n2(1) False
          unfolding G by (simp add: g1 r st2_def [symmetric] grow_bytes_fail)
        then have "AudioApi_GrowSequenceTables isRecompAlloc st
        = Some (False, st\<lparr>alloc_plan := drop 3 p\<rparr>)" by (simp only: d(3))
    then show ?thesis unfolding p_def by (intro exI [of _ 3]) simp
      next
        case a3: True
        define b3 where "b3 = BytesBlk (the (grown_bytes flags (unat oc) (unat nc)))"
        define st3 where "st3 = st2\<lparr>mem := (mem st2)(hd (tl (tl p)) \<mapsto> b3),
                                   alloc_plan := tl (tl (tl p))\<rparr>"
        have g3: "grow_bytes (sExtSeqFlags st2) (unat oc) (unat nc) st2
            = Some (hd (tl (tl p)), st3)"
          using grow_bytes_ok [OF f2 a3 flags2 le flags(2)] by (simp add: st3_def b3_def p2)
        have n3: "hd (tl (tl p)) \<noteq> 0" "mem st2 (hd (tl (tl p))) = None"
          using alloc_succeeds(2) [OF a3] alloc_step(1) [OF f2 a3] by (simp_all add: p2)
        have f3: "plan_fresh st3"
          unfolding st3_def using alloc_step(2) [OF f2 a3] by (simp add: p2)
        have p3: "alloc_plan st3 = tl (tl (tl p))" by (simp add: st3_def)
        have m3: "mem st (hd (tl (tl p))) = None" "hd (tl (tl p)) \<noteq> hd p"
          "hd (tl (tl p)) \<noteq> hd (tl p)"
          using n3(2) by (auto simp: st2_def st1_def split: if_splits)
        have a4: "\<not> alloc_ok st3"
        proof
          assume "alloc_ok st3"
          with a1 a2 a3 have "\<not> some_alloc_fails 4 p"
            unfolding alloc_ok_def p1 p2 p3 p_def [symmetric]
            by (cases p; cases "tl p"; cases "tl (tl p)"; cases "tl (tl (tl p))")
               (auto simp: some_alloc_fails_def)
          with fl show False by (simp add: p_def)
        qed
        have "(mem st)(hd p := None, hd (tl p) := None, hd (tl (tl p)) := None) = mem st"
          using n1(2) m2(1) m3(1) by (auto simp: fun_eq_iff)
        then have "free_new [hd p, hd (tl p), hd (tl (tl p)), 0]
              (st3\<lparr>alloc_plan := tl (alloc_plan st3)\<rparr>)
            = st\<lparr>alloc_plan := tl (tl (tl (tl p)))\<rparr>"
          using n1(1) n2(1) n3(1) m2(2) m3(2,3)
          by (simp add: free_new_def recomp_free_def p3 st3_def st2_def st1_def)
        then have "AudioApi_GrowSequenceTables isRecompAlloc st
            = Some (False, st\<lparr>alloc_plan := tl (tl (tl (tl p)))\<rparr>)"
          using n1(1) n2(1) n3(1) a4
          unfolding G by (simp add: g1 r st2_def [symmetric] g3 grow_bytes_fail)
        then have "AudioApi_GrowSequenceTables isRecompAlloc st
        = Some (False, st\<lparr>alloc_plan := drop 4 p\<rparr>)" by (simp only: d(4))
    then show ?thesis unfolding p_def by (intro exI [of _ 4]) simp
      qed
    qed
  qed
qed

lemma grow_sample_bank_fails:
  assumes "some_alloc_fails 1 (alloc_plan st)"
  shows "AudioApi_GrowSampleBankTables isRecompAlloc st
           = Some (False, st\<lparr>alloc_plan := drop 1 (alloc_plan st)\<rparr>)"
proof -
  from assms have "\<not> alloc_ok st"
    by (cases "alloc_plan st") (auto simp: some_alloc_fails_def alloc_ok_def)
  then show ?thesis
    by (simp add: AudioApi_GrowSampleBankTables_def Let_def grow_table_fail free_new_def
        drop_Suc)
qed

text \<open>
  Claim C2.  Growth is all or nothing.  For the sequences: let the allocator hand out
  unused, pairwise different addresses, let the four arrays be allocated with at least
  \<open>sequenceTableCapacity\<close> slots (the doubled capacity fitting 16 bits), and let one of the
  four requests of \<open>AudioApi_GrowSequenceTables\<close> fail.  Then the function returns
  \<^verbatim>\<open>false\<close>, and the state after it is the state before it but for the \<open>k\<close> requests that
  the allocator has answered: the memory is the same, so every block obtained during the
  attempt has been freed and the old tables hold what they held, and the four pointers and
  the capacity are the same.  For the sample banks, whose growth has one request: if it
  fails, \<open>AudioApi_GrowSampleBankTables\<close> returns \<^verbatim>\<open>false\<close> and changes nothing else.
\<close>

theorem grow_all_or_nothing:
  "(plan_fresh st \<and> seq_tables_ok st \<and> some_alloc_fails 4 (alloc_plan st) \<longrightarrow>
      (\<exists>k\<le>4. AudioApi_GrowSequenceTables isRecompAlloc st
                = Some (False, st\<lparr>alloc_plan := drop k (alloc_plan st)\<rparr>)))
   \<and> (some_alloc_fails 1 (alloc_plan st) \<longrightarrow>
        AudioApi_GrowSampleBankTables isRecompAlloc st
          = Some (False, st\<lparr>alloc_plan := drop 1 (alloc_plan st)\<rparr>))"
  using grow_sequence_fails grow_sample_bank_fails by blast

lemma all_less_two: "(\<forall>i<(2::nat). P i) \<longleftrightarrow> P 0 \<and> P 1"
  by (auto simp: less_2_cases_iff)

lemma grow_example_ok: "plan_fresh grow_example" "seq_tables_ok grow_example"
  by (simp_all add: grow_example_def plan_fresh_def seq_tables_ok_def table_at_def bytes_at_def
      font_table_ok_def font_list_ok_def read_u16_def MAX_FONTS_PER_SEQUENCE_def all_less_two)

theorem grow_all_or_nothing_witness:
  "(\<exists>k\<le>4. AudioApi_GrowSequenceTables (\<lambda>a. 0x81000000 \<le> a) grow_example
              = Some (False, grow_example\<lparr>alloc_plan := drop k (alloc_plan grow_example)\<rparr>))
   \<and> AudioApi_GrowSampleBankTables (\<lambda>a. 0x81000000 \<le> a) (grow_example\<lparr>alloc_plan := [0]\<rparr>)
       = Some (False, grow_example\<lparr>alloc_plan := []\<rparr>)"
proof -
  have a: "some_alloc_fails 4 (alloc_plan grow_example)"
    by (simp add: some_alloc_fails_def grow_example_def)
  have b: "some_alloc_fails 1 (alloc_plan (grow_example\<lparr>alloc_plan := [0]\<rparr>))"
    by (simp add: some_alloc_fails_def)
  from grow_all_or_nothing [of grow_example "\<lambda>a. 0x81000000 \<le> a"] a grow_example_ok
  have 1: "\<exists>k\<le>4. AudioApi_GrowSequenceTables (\<lambda>a. 0x81000000 \<le> a) grow_example
              = Some (False, grow_example\<lparr>alloc_plan := drop k (alloc_plan grow_example)\<rparr>)"
    by blast
  from grow_all_or_nothing [of "grow_example\<lparr>alloc_plan := [0]\<rparr>" "\<lambda>a. 0x81000000 \<le> a"] b
  have 2: "AudioApi_GrowSampleBankTables (\<lambda>a. 0x81000000 \<le> a) (grow_example\<lparr>alloc_plan := [0]\<rparr>)
       = Some (False, grow_example\<lparr>alloc_plan := []\<rparr>)"
    by simp
  from 1 2 show ?thesis by blast
qed

section \<open>Results on the phases of Replace\<close>











lemma entry_at_mem: "entry_at h p = Some e \<longleftrightarrow> mem h p = Some (EntryBlk e)"
  by (auto simp: entry_at_def split: option.splits block.splits)










































section \<open>Results on Add\<close>






lemma uint_le_int: "uint (w :: u16) \<le> i \<Longrightarrow> unat w \<le> nat i"
  unfolding unat_eq_nat_uint by (rule nat_mono)





















end
